theory Spec2Isabelle
  imports Main "HOL-Library.Word"
begin

section \<open>The Compiler of webpack: data model\<close>

text \<open>
  The development embeds the class \<open>Compiler\<close> (and \<open>SizeOnlySource\<close>) of
  \<^verbatim>\<open>src/webpack-cli/bin/utils/prompt-command.js\<close>, lines 565 to 1181.
  JavaScript objects that the code shares by reference and mutates (the records
  structure, the content objects of the assets) live in explicit stores addressed by
  natural numbers; a fresh object gets the next free address.
\<close>

type_synonym path = string
type_synonym bytes = "8 word list"
type_synonym addr = nat
type_synonym srcid = nat

datatype err =
    ConcurrentCompilationError
  | Error string
  | TypeError string

text \<open>
  A value is a primitive, a reference to an object of the heap, or \<open>JBuiltin k\<close>: an
  object of the runtime that was reached through a prototype chain under the name \<open>k\<close>
  (a built-in function such as \<^verbatim>\<open>Object\<close>, or a prototype object).
\<close>

datatype jsval =
  JUndefined | JNull | JBool bool | JNum int | JStr string | JRef addr | JBuiltin string

text \<open>
  A heap object is a plain object (named own properties) or, when \<open>elems\<close> is present,
  an array whose dense elements are \<open>elems\<close> and whose named own properties are \<open>props\<close>.
\<close>

record jsobj =
  props :: "(string \<times> jsval) list"
  elems :: "jsval list option"

datatype json =
    JsonNull
  | JsonBool bool
  | JsonNum int
  | JsonStr string
  | JsonArr "json list"
  | JsonObj "(string \<times> json) list"

fun truthy :: "jsval \<Rightarrow> bool" where
  "truthy JUndefined = False"
| "truthy JNull = False"
| "truthy (JBool b) = b"
| "truthy (JNum n) = (n \<noteq> 0)"
| "truthy (JStr s) = (s \<noteq> [])"
| "truthy (JRef a) = True"
| "truthy (JBuiltin k) = True"

definition empty_object :: jsobj where
  "empty_object = \<lparr>props = [], elems = None\<rparr>"

definition empty_array :: jsobj where
  "empty_array = \<lparr>props = [], elems = Some []\<rparr>"

definition alloc :: "jsobj list \<Rightarrow> jsobj \<Rightarrow> addr \<times> jsobj list" where
  "alloc h ob = (length h, h @ [ob])"

definition deref :: "jsobj list \<Rightarrow> addr \<Rightarrow> jsobj option" where
  "deref h a = (if a < length h then Some (h ! a) else None)"

fun set_assoc :: "'k \<Rightarrow> 'v \<Rightarrow> ('k \<times> 'v) list \<Rightarrow> ('k \<times> 'v) list" where
  "set_assoc k v [] = [(k, v)]"
| "set_assoc k v ((k', v') # kvs) =
     (if k' = k then (k, v) # kvs else (k', v') # set_assoc k v kvs)"

fun string_of_nat :: "nat \<Rightarrow> string" where
  "string_of_nat n =
     (if n < 10 then [char_of (48 + n)]
      else string_of_nat (n div 10) @ [char_of (48 + n mod 10)])"

declare string_of_nat.simps [simp del]

subsection \<open>Reading and writing properties\<close>

text \<open>
  The prototypes belong to the runtime and not to the file, so they are a parameter:
  \<open>inh r k\<close> tells whether a value of the kind \<open>r\<close> inherits a member named \<open>k\<close>, as a
  plain object inherits \<^verbatim>\<open>constructor\<close> or \<^verbatim>\<open>toString\<close> from
  \<^verbatim>\<open>Object.prototype\<close>. The members of the standard prototypes are functions or
  prototype objects; reading one gives a \<open>JBuiltin\<close>, which is truthy, is no array and
  has no method \<^verbatim>\<open>push\<close> of its own.
\<close>

datatype receiver = OfObject | OfArray | OfString | OfNumber | OfBoolean | OfBuiltin string

type_synonym prototypes = "receiver \<Rightarrow> string \<Rightarrow> bool"

text \<open>
  A key is an array index when it is the decimal numeral of a number below
  \<open>2\<^sup>3\<^sup>2 - 1\<close>.
\<close>

definition is_digit :: "char \<Rightarrow> bool" where
  "is_digit c = (48 \<le> (of_char c :: nat) \<and> (of_char c :: nat) \<le> 57)"

definition index_of_key :: "string \<Rightarrow> nat option" where
  "index_of_key k =
     (if k \<noteq> [] \<and> list_all is_digit k \<and> (k = ''0'' \<or> hd k \<noteq> CHR ''0'')
      then (let i = foldl (\<lambda>a c. 10 * a + ((of_char c :: nat) - 48)) 0 k
            in if i < 4294967295 then Some i else None)
      else None)"

text \<open>The own property \<open>k\<close> of a heap object, if it has one.\<close>

definition own_prop :: "jsobj \<Rightarrow> string \<Rightarrow> jsval option" where
  "own_prop ob k =
     (case elems ob of
        None \<Rightarrow> map_of (props ob) k
      | Some xs \<Rightarrow>
          if k = ''length'' then Some (JNum (int (length xs)))
          else (case index_of_key k of
                  Some i \<Rightarrow> if i < length xs then Some (xs ! i) else map_of (props ob) k
                | None \<Rightarrow> map_of (props ob) k))"

definition inherited_member :: "prototypes \<Rightarrow> receiver \<Rightarrow> string \<Rightarrow> jsval" where
  "inherited_member inh r k = (if inh r k then JBuiltin k else JUndefined)"

text \<open>\<^verbatim>\<open>v[key]\<close> with a string key: the own property, else the inherited member.\<close>

definition get_prop :: "prototypes \<Rightarrow> jsobj list \<Rightarrow> jsval \<Rightarrow> string \<Rightarrow> err + jsval" where
  "get_prop inh h v k =
     (case v of
        JUndefined \<Rightarrow> Inl (TypeError ''Cannot read property of undefined'')
      | JNull \<Rightarrow> Inl (TypeError ''Cannot read property of null'')
      | JBool b \<Rightarrow> Inr (inherited_member inh OfBoolean k)
      | JNum n \<Rightarrow> Inr (inherited_member inh OfNumber k)
      | JStr s \<Rightarrow>
          Inr (if k = ''length'' then JNum (int (length s))
               else (case index_of_key k of
                       Some i \<Rightarrow>
                         if i < length s then JStr [s ! i] else inherited_member inh OfString k
                     | None \<Rightarrow> inherited_member inh OfString k))
      | JBuiltin b \<Rightarrow> Inr (inherited_member inh (OfBuiltin b) k)
      | JRef a \<Rightarrow>
          (case deref h a of
             None \<Rightarrow> Inl (TypeError ''Cannot read property of undefined'')
           | Some ob \<Rightarrow>
               Inr (case own_prop ob k of
                      Some x \<Rightarrow> x
                    | None \<Rightarrow>
                        inherited_member inh
                          (if elems ob = None then OfObject else OfArray) k)))"

text \<open>
  The number that \<^verbatim>\<open>array.length = x\<close> takes from \<open>x\<close>, for a number, a boolean,
  \<^verbatim>\<open>null\<close> and the empty array (which reads as 0); every other value is taken to have
  no reading as a length.
\<close>

definition length_of_value :: "jsobj list \<Rightarrow> jsval \<Rightarrow> nat option" where
  "length_of_value h x =
     (case x of
        JNum n \<Rightarrow> if 0 \<le> n \<and> n < 4294967296 then Some (nat n) else None
      | JBool b \<Rightarrow> Some (if b then 1 else 0)
      | JNull \<Rightarrow> Some 0
      | JRef b \<Rightarrow>
          (case deref h b of
             Some ob \<Rightarrow> (if elems ob = Some [] then Some 0 else None)
           | None \<Rightarrow> None)
      | _ \<Rightarrow> None)"

text \<open>
  \<^verbatim>\<open>v[key] = x\<close> in strict mode, which the file declares: creating a property on a
  primitive throws. On an array an index key stores an element (the array grows as far
  as needed) and \<^verbatim>\<open>length\<close> resizes it. A built-in is an object of the runtime, so an
  assignment onto it leaves the heap as it is.
\<close>

definition set_prop :: "jsobj list \<Rightarrow> jsval \<Rightarrow> string \<Rightarrow> jsval \<Rightarrow> err + jsobj list" where
  "set_prop h v k x =
     (case v of
        JRef a \<Rightarrow>
          (case deref h a of
             None \<Rightarrow> Inl (TypeError ''Cannot set property of undefined'')
           | Some ob \<Rightarrow>
               (case elems ob of
                  None \<Rightarrow> Inr (h[a := ob\<lparr>props := set_assoc k x (props ob)\<rparr>])
                | Some xs \<Rightarrow>
                    if k = ''length'' then
                      (case length_of_value h x of
                         None \<Rightarrow> Inl (Error ''RangeError: Invalid array length'')
                       | Some m \<Rightarrow>
                           Inr (h[a := ob\<lparr>elems :=
                                  Some (take m xs @ replicate (m - length xs) JUndefined)\<rparr>]))
                    else
                      (case index_of_key k of
                         Some i \<Rightarrow>
                           Inr (h[a := ob\<lparr>elems :=
                                  Some (if i < length xs then xs[i := x]
                                        else xs @ replicate (i - length xs) JUndefined @ [x])\<rparr>])
                       | None \<Rightarrow> Inr (h[a := ob\<lparr>props := set_assoc k x (props ob)\<rparr>]))))
      | JBuiltin b \<Rightarrow> Inr h
      | JUndefined \<Rightarrow> Inl (TypeError ''Cannot set property of undefined'')
      | JNull \<Rightarrow> Inl (TypeError ''Cannot set property of null'')
      | _ \<Rightarrow> Inl (TypeError ''Cannot create property''))"

text \<open>\<^verbatim>\<open>v[i]\<close> with a number \<open>i\<close>: the key is its decimal numeral.\<close>

definition get_index :: "prototypes \<Rightarrow> jsobj list \<Rightarrow> jsval \<Rightarrow> nat \<Rightarrow> err + jsval" where
  "get_index inh h v i = get_prop inh h v (string_of_nat i)"

text \<open>
  \<^verbatim>\<open>v.push(x)\<close>: an array has the method; on every other value the call throws, on
  \<^verbatim>\<open>undefined\<close> and \<^verbatim>\<open>null\<close> already the lookup of the method.
\<close>

definition push :: "jsobj list \<Rightarrow> jsval \<Rightarrow> jsval \<Rightarrow> err + jsobj list" where
  "push h v x =
     (case v of
        JRef a \<Rightarrow>
          (case deref h a of
             None \<Rightarrow> Inl (TypeError ''Cannot read property push of undefined'')
           | Some ob \<Rightarrow>
               (case elems ob of
                  Some xs \<Rightarrow> Inr (h[a := ob\<lparr>elems := Some (xs @ [x])\<rparr>])
                | None \<Rightarrow> Inl (TypeError ''push is not a function'')))
      | JUndefined \<Rightarrow> Inl (TypeError ''Cannot read property push of undefined'')
      | JNull \<Rightarrow> Inl (TypeError ''Cannot read property push of null'')
      | _ \<Rightarrow> Inl (TypeError ''push is not a function''))"

subsection \<open>Hooks and taps\<close>

record tap =
  tap_name :: string
  tap_fn :: nat

datatype hook_kind = SyncHook | SyncBailHook | AsyncSeriesHook | AsyncParallelHook

record hook =
  kind :: hook_kind
  taps :: "tap list"

definition new_hook :: "hook_kind \<Rightarrow> hook" where
  "new_hook k = \<lparr>kind = k, taps = []\<rparr>"

subsection \<open>Content objects\<close>

text \<open>
  What \<^verbatim>\<open>source.source()\<close> returns is a Buffer or a string. A content object may
  offer \<^verbatim>\<open>buffer()\<close> as well. The legacy emission mode writes \<open>existsAt\<close> and
  \<open>emitted\<close> onto the object.
\<close>

datatype content = Buf bytes | Str string

datatype source_body =
    Content "bytes option" content
  | SizeOnlySource nat

record source =
  body :: source_body
  existsAt :: "path option"
  emitted :: "bool option"

record cache_entry =
  sizeOnlySource :: "srcid option"
  writtenTo :: "(path \<times> nat) list"

subsection \<open>The Compiler\<close>

record webpack_options =
  output_opts :: "(string \<times> jsval) list option"

record compiler =
  hooks :: "(string \<times> hook) list"
  name :: "string option"
  parentCompilation :: "nat option"
  outputPath :: path
  outputFileSystem :: "nat option"
  inputFileSystem :: "nat option"
  recordsInputPath :: "path option"
  recordsOutputPath :: "path option"
  records :: jsval
  removedFiles :: "path list"
  fileTimestamps :: "(path \<times> nat) list"
  contextTimestamps :: "(path \<times> nat) list"
  resolverFactory :: nat
  options :: webpack_options
  context_path :: path
  running :: bool
  watchMode :: bool
  assetEmittingSourceCache :: "(srcid \<times> cache_entry) list"
  assetEmittingWrittenFiles :: "(path \<times> nat) list"

text \<open>
  The constructor. Its \<^verbatim>\<open>this.records = {}\<close> allocates the empty object; the
  \<^verbatim>\<open>new ResolverFactory()\<close> is the handle \<open>rf\<close>. The deprecated
  \<^verbatim>\<open>resolvers\<close> shims and the request shortener carry no state of interest.
\<close>

definition compiler_hooks :: "(string \<times> hook) list" where
  "compiler_hooks =
     [(''done'', new_hook AsyncSeriesHook),
      (''additionalPass'', new_hook AsyncSeriesHook),
      (''beforeRun'', new_hook AsyncSeriesHook),
      (''run'', new_hook AsyncSeriesHook),
      (''shouldEmit'', new_hook SyncBailHook),
      (''emit'', new_hook AsyncSeriesHook),
      (''afterEmit'', new_hook AsyncSeriesHook),
      (''thisCompilation'', new_hook SyncHook),
      (''compilation'', new_hook SyncHook),
      (''normalModuleFactory'', new_hook SyncHook),
      (''contextModuleFactory'', new_hook SyncHook),
      (''beforeCompile'', new_hook AsyncSeriesHook),
      (''compile'', new_hook SyncHook),
      (''make'', new_hook AsyncParallelHook),
      (''afterCompile'', new_hook AsyncSeriesHook),
      (''watchRun'', new_hook AsyncSeriesHook),
      (''failed'', new_hook SyncHook),
      (''invalid'', new_hook SyncHook),
      (''watchClose'', new_hook SyncHook),
      (''environment'', new_hook SyncHook),
      (''afterEnvironment'', new_hook SyncHook),
      (''afterPlugins'', new_hook SyncHook),
      (''afterResolvers'', new_hook SyncHook),
      (''entryOption'', new_hook SyncBailHook)]"

definition new_Compiler :: "path \<Rightarrow> nat \<Rightarrow> jsobj list \<Rightarrow> compiler \<times> jsobj list" where
  "new_Compiler ctx rf h =
     (let (a, h') = alloc h empty_object
      in (\<lparr>hooks = compiler_hooks,
           name = None,
           parentCompilation = None,
           outputPath = '''',
           outputFileSystem = None,
           inputFileSystem = None,
           recordsInputPath = None,
           recordsOutputPath = None,
           records = JRef a,
           removedFiles = [],
           fileTimestamps = [],
           contextTimestamps = [],
           resolverFactory = rf,
           options = \<lparr>output_opts = None\<rparr>,
           context_path = ctx,
           running = False,
           watchMode = False,
           assetEmittingSourceCache = [],
           assetEmittingWrittenFiles = []\<rparr>, h'))"

subsection \<open>createChildCompiler\<close>

text \<open>
  A plugin is external code that receives the child compiler and may tap its hooks, add
  hooks, or throw. \<open>makePathsRelative\<close> (\<^verbatim>\<open>./util/identifier\<close>) is not part of the
  file and is a parameter. Neither is the class of the compilation: of the compilation
  handed to the method the model keeps its identity and what
  \<^verbatim>\<open>compilation.hooks.childCompiler.call(childCompiler, compilerName, compilerIndex)\<close>
  does with these three arguments, which is to return or to throw.
\<close>

type_synonym plugin = "compiler \<Rightarrow> err + compiler"

record parent_compilation =
  compilation_id :: nat
  hooks_childCompiler_call :: "compiler \<Rightarrow> string \<Rightarrow> nat \<Rightarrow> err option"

fun apply_plugins :: "plugin list \<Rightarrow> compiler \<Rightarrow> err + compiler" where
  "apply_plugins [] c = Inr c"
| "apply_plugins (p # ps) c =
     (case p c of Inl e \<Rightarrow> Inl e | Inr c' \<Rightarrow> apply_plugins ps c')"

definition plugin_list :: "plugin list option \<Rightarrow> plugin list" where
  "plugin_list plugins = (case plugins of Some ps \<Rightarrow> ps | None \<Rightarrow> [])"

definition excluded_hooks :: "string list" where
  "excluded_hooks =
     [''make'', ''compile'', ''emit'', ''afterEmit'', ''invalid'', ''done'', ''thisCompilation'']"

text \<open>
  One round of the \<^verbatim>\<open>for (const name in this.hooks)\<close> loop: unless the name is
  excluded, and if the child has a hook of that name, the child's hook gets a copy of
  the parent's tap list.
\<close>

definition copy_hook_taps ::
  "(string \<times> hook) list \<Rightarrow> (string \<times> hook) list \<Rightarrow> string \<Rightarrow> (string \<times> hook) list" where
  "copy_hook_taps parent child nm =
     (if nm \<notin> set excluded_hooks then
        (case map_of child nm of
           Some c \<Rightarrow>
             (case map_of parent nm of
                Some p \<Rightarrow> set_assoc nm (c\<lparr>taps := taps p\<rparr>) child
              | None \<Rightarrow> child)
         | None \<Rightarrow> child)
      else child)"

definition copy_taps ::
  "(string \<times> hook) list \<Rightarrow> (string \<times> hook) list \<Rightarrow> (string \<times> hook) list" where
  "copy_taps parent child = foldl (copy_hook_taps parent) child (remdups (map fst parent))"

text \<open>
  The record slot of the child, lines 1042 to 1050: \<open>rel\<close> is the relative compiler name.
  The result is the value stored into \<^verbatim>\<open>childCompiler.records\<close>, or the exception
  thrown on the way, and the heap as it is then. In
  \<^verbatim>\<open>this.records[rel].push((childCompiler.records = {}))\<close> the receiver is read before
  the argument allocates the new object.
\<close>

definition child_records ::
  "prototypes \<Rightarrow> jsobj list \<Rightarrow> jsval \<Rightarrow> string \<Rightarrow> nat \<Rightarrow> (err + jsval) \<times> jsobj list" where
  "child_records inh h recs rel compilerIndex =
     (case get_prop inh h recs rel of
        Inl e \<Rightarrow> (Inl e, h)
      | Inr r0 \<Rightarrow>
          (case (if \<not> truthy r0
                 then (let (a, h1) = alloc h empty_array
                       in case set_prop h1 recs rel (JRef a) of
                            Inl e \<Rightarrow> (Some e, h1) | Inr h2 \<Rightarrow> (None, h2))
                 else (None, h)) of
             (Some e, h2) \<Rightarrow> (Inl e, h2)
           | (None, h2) \<Rightarrow>
               (case get_prop inh h2 recs rel of
                  Inl e \<Rightarrow> (Inl e, h2)
                | Inr arr \<Rightarrow>
                    (case get_index inh h2 arr compilerIndex of
                       Inl e \<Rightarrow> (Inl e, h2)
                     | Inr slot \<Rightarrow>
                         if truthy slot then (Inr slot, h2)
                         else (let (b, h3) = alloc h2 empty_object
                               in case push h3 arr (JRef b) of
                                    Inl e \<Rightarrow> (Inl e, h3) | Inr h4 \<Rightarrow> (Inr (JRef b), h4))))))"

text \<open>
  The whole method. The result pairs what the call returns (the child, or the exception
  thrown) with the heap it leaves. \<^verbatim>\<open>Object.create\<close> of the parent's output options
  followed by the assignment of each override is the override list in front of the
  parent's list; it throws when the parent has no output options. The last statement
  before the \<^verbatim>\<open>return\<close> calls the hook \<^verbatim>\<open>childCompiler\<close> of the compilation; when
  that throws, the method throws, with the record slot already in place.
\<close>

definition createChildCompiler ::
  "(path \<Rightarrow> string \<Rightarrow> string) \<Rightarrow> prototypes \<Rightarrow> compiler \<Rightarrow> jsobj list \<Rightarrow>
     parent_compilation \<Rightarrow> string \<Rightarrow> nat \<Rightarrow> (string \<times> jsval) list \<Rightarrow> plugin list option \<Rightarrow>
     (err + compiler) \<times> jsobj list" where
  "createChildCompiler makePathsRelative inh this h compilation compilerName compilerIndex
       outputOptions plugins =
     (let (c0, h0) = new_Compiler (context_path this) (resolverFactory this) h
      in case apply_plugins (plugin_list plugins) c0 of
           Inl e \<Rightarrow> (Inl e, h0)
         | Inr c1 \<Rightarrow>
             (let c2 = c1\<lparr>hooks := copy_taps (hooks this) (hooks c1),
                          name := Some compilerName,
                          outputPath := outputPath this,
                          inputFileSystem := inputFileSystem this,
                          outputFileSystem := None,
                          resolverFactory := resolverFactory this,
                          fileTimestamps := fileTimestamps this,
                          contextTimestamps := contextTimestamps this\<rparr>;
                  rel = makePathsRelative (context_path this) compilerName
              in case child_records inh h0 (records this) rel compilerIndex of
                   (Inl e, h1) \<Rightarrow> (Inl e, h1)
                 | (Inr slot, h1) \<Rightarrow>
                     (case output_opts (options this) of
                        None \<Rightarrow> (Inl (TypeError ''Object prototype may only be an Object or null''), h1)
                      | Some out \<Rightarrow>
                          (let child = c2\<lparr>records := slot,
                                          options := \<lparr>output_opts = Some (outputOptions @ out)\<rparr>,
                                          parentCompilation := Some (compilation_id compilation)\<rparr>
                           in case hooks_childCompiler_call compilation child compilerName
                                     compilerIndex of
                                Some e \<Rightarrow> (Inl e, h1)
                              | None \<Rightarrow> (Inr child, h1)))))"

text \<open>What \<^verbatim>\<open>records[rel][i]\<close> reads, \<^verbatim>\<open>undefined\<close> where the read throws.\<close>

definition record_slot :: "prototypes \<Rightarrow> jsobj list \<Rightarrow> jsval \<Rightarrow> string \<Rightarrow> nat \<Rightarrow> jsval" where
  "record_slot inh h recs rel i =
     (case get_prop inh h recs rel of
        Inl _ \<Rightarrow> JUndefined
      | Inr arr \<Rightarrow> (case get_index inh h arr i of Inl _ \<Rightarrow> JUndefined | Inr v \<Rightarrow> v))"

text \<open>
  A runtime with the members that the language standard gives \<^verbatim>\<open>Object.prototype\<close>,
  which every kind of value inherits, and a compilation whose hook has no tap.
\<close>

definition Object_prototype :: "string list" where
  "Object_prototype =
     [''constructor'', ''hasOwnProperty'', ''isPrototypeOf'', ''propertyIsEnumerable'',
      ''toLocaleString'', ''toString'', ''valueOf'', ''__proto__'', ''__defineGetter__'',
      ''__defineSetter__'', ''__lookupGetter__'', ''__lookupSetter__'']"

definition demo_inherited :: prototypes where
  "demo_inherited r k = (k \<in> set Object_prototype)"

definition demo_parent_compilation :: parent_compilation where
  "demo_parent_compilation =
     \<lparr>compilation_id = 0, hooks_childCompiler_call = (\<lambda>c nm i. None)\<rparr>"

definition demo_makePathsRelative :: "path \<Rightarrow> string \<Rightarrow> string" where
  "demo_makePathsRelative ctx nm = nm"

definition demo_tap :: tap where
  "demo_tap = \<lparr>tap_name = ''DemoPlugin'', tap_fn = 7\<rparr>"

definition demo_tap2 :: tap where
  "demo_tap2 = \<lparr>tap_name = ''OtherPlugin'', tap_fn = 8\<rparr>"

definition demo_parent :: compiler where
  "demo_parent =
     (fst (new_Compiler ''/ctx'' 0 []))
       \<lparr>hooks :=
          set_assoc ''make'' \<lparr>kind = AsyncParallelHook, taps = [demo_tap]\<rparr>
            (set_assoc ''beforeRun'' \<lparr>kind = AsyncSeriesHook, taps = [demo_tap, demo_tap2]\<rparr>
               compiler_hooks)
          @ [(''myHook'', \<lparr>kind = SyncHook, taps = [demo_tap]\<rparr>)],
        options := \<lparr>output_opts = Some []\<rparr>\<rparr>"

definition demo_heap :: "jsobj list" where
  "demo_heap = snd (new_Compiler ''/ctx'' 0 [])"

definition demo_heap1 :: "jsobj list" where
  "demo_heap1 = [\<lparr>props = [(''sub'', JRef 2)], elems = None\<rparr>, empty_object,
                 \<lparr>props = [], elems = Some [JRef 3]\<rparr>, empty_object]"

section \<open>The environment of a build\<close>

text \<open>
  Everything the Compiler reaches through an interface is a field of \<open>world\<close>: what
  each tap function does when it runs, the file system, \<^verbatim>\<open>JSON\<close>, the path helpers
  and the Compilation. The number passed to these fields is the index of the compile
  cycle in which the Compiler consults them, so that the environment may answer
  differently from one cycle to the next.
\<close>

datatype event =
    Enter string
  | HookCall string nat
  | TapRun string nat
  | Mkdirp path
  | WriteFile path bytes
  | Stat path
  | ReadFile path
  | TaskStart string
  | TaskDone string "err option"

datatype tap_result = Returns jsval | Fails err

record world =
  tap_result :: "nat \<Rightarrow> nat \<Rightarrow> tap_result"
  fs_mkdirp :: "path \<Rightarrow> nat \<Rightarrow> err option"
  fs_writeFile :: "path \<Rightarrow> bytes \<Rightarrow> nat \<Rightarrow> err option"
  fs_stat :: "path \<Rightarrow> nat \<Rightarrow> err option"
  fs_readFile :: "path \<Rightarrow> nat \<Rightarrow> err + bytes"
  fs_join :: "path \<Rightarrow> path \<Rightarrow> path"
  path_dirname :: "path \<Rightarrow> path"
  parseJson :: "string \<Rightarrow> string + json"
  json_stringify :: "jsobj list \<Rightarrow> jsval \<Rightarrow> string"
  utf8_encode :: "string \<Rightarrow> bytes"
  utf8_decode :: "bytes \<Rightarrow> string"
  getPath :: "path \<Rightarrow> nat \<Rightarrow> path"
  compilation_finish :: "nat \<Rightarrow> err option"
  compilation_seal :: "nat \<Rightarrow> err option"
  sealed_assets :: "nat \<Rightarrow> (string \<times> srcid) list"
  needAdditionalPass_call :: "nat \<Rightarrow> jsval"
  date_now :: "nat \<Rightarrow> nat"
  pick :: "nat \<Rightarrow> nat"

text \<open>
  An asynchronous step ends by calling its callback without an error (\<open>Ok\<close>), by
  calling it with an error (\<open>Fail\<close>), or by throwing (\<open>Crash\<close>): an exception raised
  inside a callback is caught by nobody in this code.
\<close>

datatype 'a outcome = Ok 'a | Fail err | Crash err

text \<open>
  The Compilation class is not part of the file. The record has the fields that the
  Compiler reads and writes.
\<close>

record compilation =
  comp_name :: "string option"
  comp_records :: jsval
  comp_fileTimestamps :: "(path \<times> nat) list"
  comp_contextTimestamps :: "(path \<times> nat) list"
  compilationDependencies :: "path list"
  assets :: "(string \<times> srcid) list"
  emittedAssets :: "string list"
  needAdditionalPass :: bool

record stats =
  stats_compilation :: compilation
  startTime :: nat
  endTime :: nat

record state =
  self :: compiler
  heap :: "jsobj list"
  sources :: "source list"
  trace :: "event list"

definition log :: "event \<Rightarrow> state \<Rightarrow> state" where
  "log e st = st\<lparr>trace := trace st @ [e]\<rparr>"

definition andThen ::
  "'a outcome \<times> state \<Rightarrow> ('a \<Rightarrow> state \<Rightarrow> 'b outcome \<times> state) \<Rightarrow> 'b outcome \<times> state" where
  "andThen m k =
     (case m of
        (Ok a, st) \<Rightarrow> k a st
      | (Fail e, st) \<Rightarrow> (Fail e, st)
      | (Crash e, st) \<Rightarrow> (Crash e, st))"

subsection \<open>Firing a hook\<close>

text \<open>
  Modelled from the spec: the hook classes come from the library \<^verbatim>\<open>tapable\<close>, which
  is not part of the file. Section 4.1: an async-series hook runs its taps one after
  another and a failure aborts the rest; an async-parallel hook starts all taps and
  settles with the first failure; a sync hook runs every tap in order, and a tap that
  raises aborts the rest and propagates; a sync-bail hook stops at the first tap whose
  result is not undefined.
\<close>

fun run_series :: "(nat \<Rightarrow> tap_result) \<Rightarrow> string \<Rightarrow> tap list \<Rightarrow> state \<Rightarrow> unit outcome \<times> state" where
  "run_series beh h [] st = (Ok (), st)"
| "run_series beh h (t # ts) st =
     (case beh (tap_fn t) of
        Fails e \<Rightarrow> (Fail e, log (TapRun h (tap_fn t)) st)
      | Returns v \<Rightarrow> run_series beh h ts (log (TapRun h (tap_fn t)) st))"

fun run_parallel :: "(nat \<Rightarrow> tap_result) \<Rightarrow> string \<Rightarrow> tap list \<Rightarrow> state \<Rightarrow> unit outcome \<times> state" where
  "run_parallel beh h [] st = (Ok (), st)"
| "run_parallel beh h (t # ts) st =
     (case run_parallel beh h ts (log (TapRun h (tap_fn t)) st) of
        (r, st') \<Rightarrow> (case beh (tap_fn t) of Fails e \<Rightarrow> (Fail e, st') | Returns v \<Rightarrow> (r, st')))"

fun run_sync :: "(nat \<Rightarrow> tap_result) \<Rightarrow> string \<Rightarrow> tap list \<Rightarrow> state \<Rightarrow> jsval outcome \<times> state" where
  "run_sync beh h [] st = (Ok JUndefined, st)"
| "run_sync beh h (t # ts) st =
     (case beh (tap_fn t) of
        Fails e \<Rightarrow> (Crash e, log (TapRun h (tap_fn t)) st)
      | Returns v \<Rightarrow> run_sync beh h ts (log (TapRun h (tap_fn t)) st))"

fun run_bail :: "(nat \<Rightarrow> tap_result) \<Rightarrow> string \<Rightarrow> tap list \<Rightarrow> state \<Rightarrow> jsval outcome \<times> state" where
  "run_bail beh h [] st = (Ok JUndefined, st)"
| "run_bail beh h (t # ts) st =
     (case beh (tap_fn t) of
        Fails e \<Rightarrow> (Crash e, log (TapRun h (tap_fn t)) st)
      | Returns v \<Rightarrow>
          if v \<noteq> JUndefined then (Ok v, log (TapRun h (tap_fn t)) st)
          else run_bail beh h ts (log (TapRun h (tap_fn t)) st))"

text \<open>\<^verbatim>\<open>this.hooks.h.callAsync(..., callback)\<close> in compile cycle \<open>n\<close>.\<close>

definition callAsync :: "world \<Rightarrow> nat \<Rightarrow> string \<Rightarrow> state \<Rightarrow> unit outcome \<times> state" where
  "callAsync w n h st =
     (case map_of (hooks (self st)) h of
        None \<Rightarrow> (Crash (TypeError ''Cannot read property callAsync of undefined''), st)
      | Some hk \<Rightarrow>
          (if kind hk = AsyncParallelHook
           then run_parallel (\<lambda>f. tap_result w f n) h (taps hk) (log (HookCall h n) st)
           else run_series (\<lambda>f. tap_result w f n) h (taps hk) (log (HookCall h n) st)))"

text \<open>\<^verbatim>\<open>this.hooks.h.call(...)\<close> in compile cycle \<open>n\<close>.\<close>

definition call :: "world \<Rightarrow> nat \<Rightarrow> string \<Rightarrow> state \<Rightarrow> jsval outcome \<times> state" where
  "call w n h st =
     (case map_of (hooks (self st)) h of
        None \<Rightarrow> (Crash (TypeError ''Cannot read property call of undefined''), st)
      | Some hk \<Rightarrow>
          (if kind hk = SyncBailHook
           then run_bail (\<lambda>f. tap_result w f n) h (taps hk) (log (HookCall h n) st)
           else run_sync (\<lambda>f. tap_result w f n) h (taps hk) (log (HookCall h n) st)))"

subsection \<open>Records: readRecords and emitRecords\<close>

text \<open>The result of \<^verbatim>\<open>parseJson\<close> becomes objects of the heap.\<close>

fun alloc_json :: "json \<Rightarrow> jsobj list \<Rightarrow> jsval \<times> jsobj list"
  and alloc_elems :: "json list \<Rightarrow> jsobj list \<Rightarrow> jsval list \<times> jsobj list"
  and alloc_props :: "(string \<times> json) list \<Rightarrow> jsobj list \<Rightarrow> (string \<times> jsval) list \<times> jsobj list"
where
  "alloc_json JsonNull h = (JNull, h)"
| "alloc_json (JsonBool b) h = (JBool b, h)"
| "alloc_json (JsonNum i) h = (JNum i, h)"
| "alloc_json (JsonStr s) h = (JStr s, h)"
| "alloc_json (JsonArr js) h =
     (case alloc_elems js h of
        (vs, h') \<Rightarrow> (JRef (length h'), h' @ [\<lparr>props = [], elems = Some vs\<rparr>]))"
| "alloc_json (JsonObj kvs) h =
     (case alloc_props kvs h of
        (ps, h') \<Rightarrow> (JRef (length h'), h' @ [\<lparr>props = ps, elems = None\<rparr>]))"
| "alloc_elems [] h = ([], h)"
| "alloc_elems (j # js) h =
     (case alloc_json j h of
        (v, h') \<Rightarrow> (case alloc_elems js h' of (vs, h'') \<Rightarrow> (v # vs, h'')))"
| "alloc_props [] h = ([], h)"
| "alloc_props ((k, j) # kvs) h =
     (case alloc_json j h of
        (v, h') \<Rightarrow> (case alloc_props kvs h' of (ps, h'') \<Rightarrow> (set_assoc k v ps, h'')))"

definition set_records :: "jsval \<Rightarrow> jsobj list \<Rightarrow> state \<Rightarrow> state" where
  "set_records v h st = st\<lparr>self := (self st)\<lparr>records := v\<rparr>, heap := h\<rparr>"

text \<open>
  Lines 993 to 1018. A path that is null or the empty string is falsy. The parse error
  keeps its class and gets the prefix in front of its message.
\<close>

definition readRecords :: "world \<Rightarrow> nat \<Rightarrow> state \<Rightarrow> unit outcome \<times> state" where
  "readRecords w n st0 =
     (let st = log (Enter ''readRecords'') st0
      in if recordsInputPath (self st) = None \<or> recordsInputPath (self st) = Some []
         then (case alloc (heap st) empty_object of
                 (a, h) \<Rightarrow> (Ok (), set_records (JRef a) h st))
         else (case (recordsInputPath (self st), inputFileSystem (self st)) of
                 (Some p, Some fs) \<Rightarrow>
                   (case fs_stat w p n of
                      Some e \<Rightarrow> (Ok (), log (Stat p) st)
                    | None \<Rightarrow>
                        (case fs_readFile w p n of
                           Inl e \<Rightarrow> (Fail e, log (ReadFile p) (log (Stat p) st))
                         | Inr content \<Rightarrow>
                             (case parseJson w (utf8_decode w content) of
                                Inl msg \<Rightarrow>
                                  (Fail (Error (''Cannot parse records: '' @ msg)),
                                   log (ReadFile p) (log (Stat p) st))
                              | Inr j \<Rightarrow>
                                  (case alloc_json j (heap st) of
                                     (v, h) \<Rightarrow>
                                       (Ok (),
                                        set_records v h
                                          (log (ReadFile p) (log (Stat p) st)))))))
               | _ \<Rightarrow> (Crash (TypeError ''Cannot read property stat of null''), st)))"

definition lastIndexOf :: "char \<Rightarrow> string \<Rightarrow> int" where
  "lastIndexOf c s =
     (if c \<in> set s then int (length s) - 1 - int (length (takeWhile (\<lambda>x. x \<noteq> c) (rev s)))
      else - 1)"

definition backslash :: char where
  "backslash = char_of (92 :: nat)"

definition writeRecords :: "world \<Rightarrow> nat \<Rightarrow> path \<Rightarrow> state \<Rightarrow> unit outcome \<times> state" where
  "writeRecords w n p st =
     (let content = utf8_encode w (json_stringify w (heap st) (records (self st)));
          st1 = log (WriteFile p content) st
      in case fs_writeFile w p content n of
           Some e \<Rightarrow> (Fail e, st1)
         | None \<Rightarrow> (Ok (), st1))"

text \<open>Lines 969 to 991.\<close>

definition emitRecords :: "world \<Rightarrow> nat \<Rightarrow> state \<Rightarrow> unit outcome \<times> state" where
  "emitRecords w n st0 =
     (let st = log (Enter ''emitRecords'') st0
      in case recordsOutputPath (self st) of
           None \<Rightarrow> (Ok (), st)
         | Some p \<Rightarrow>
             if p = [] then (Ok (), st)
             else
               (let idx1 = lastIndexOf CHR ''/'' p;
                    idx2 = lastIndexOf backslash p;
                    dir = (if idx1 > idx2 then Some (take (nat idx1) p)
                           else if idx1 < idx2 then Some (take (nat idx2) p)
                           else None)
                in case outputFileSystem (self st) of
                     None \<Rightarrow> (Crash (TypeError ''Cannot read property of null''), st)
                   | Some fs \<Rightarrow>
                       (case dir of
                          None \<Rightarrow> writeRecords w n p st
                        | Some d \<Rightarrow>
                            if d = [] then writeRecords w n p st
                            else
                              (case fs_mkdirp w d n of
                                 Some e \<Rightarrow> (Fail e, log (Mkdirp d) st)
                               | None \<Rightarrow> writeRecords w n p (log (Mkdirp d) st)))))"


subsection \<open>SizeOnlySource\<close>

text \<open>
  Lines 1140 to 1181: \<^verbatim>\<open>size()\<close> returns the stored size; each of the six content
  accessors throws the error built by \<^verbatim>\<open>_error()\<close>.
\<close>

datatype accessor = Acc_source | Acc_node | Acc_listMap | Acc_map | Acc_listNode | Acc_updateHash

definition SizeOnlySource_error :: err where
  "SizeOnlySource_error =
     Error ''Content and Map of this Source is no longer available (only size() is supported)''"

definition SizeOnlySource_size :: "nat \<Rightarrow> nat" where
  "SizeOnlySource_size sz = sz"

fun SizeOnlySource_call :: "accessor \<Rightarrow> nat \<Rightarrow> err + content" where
  "SizeOnlySource_call Acc_source sz = Inl SizeOnlySource_error"
| "SizeOnlySource_call Acc_node sz = Inl SizeOnlySource_error"
| "SizeOnlySource_call Acc_listMap sz = Inl SizeOnlySource_error"
| "SizeOnlySource_call Acc_map sz = Inl SizeOnlySource_error"
| "SizeOnlySource_call Acc_listNode sz = Inl SizeOnlySource_error"
| "SizeOnlySource_call Acc_updateHash sz = Inl SizeOnlySource_error"

text \<open>\<^verbatim>\<open>source.source()\<close> on a content object of the store.\<close>

definition source_source :: "source \<Rightarrow> err + content" where
  "source_source s =
     (case body s of
        Content b c \<Rightarrow> Inr c
      | SizeOnlySource sz \<Rightarrow> SizeOnlySource_call Acc_source sz)"

definition to_buffer :: "world \<Rightarrow> content \<Rightarrow> bytes" where
  "to_buffer w c = (case c of Buf b \<Rightarrow> b | Str t \<Rightarrow> utf8_encode w t)"

text \<open>Lines 891 to 901: \<^verbatim>\<open>buffer()\<close> when the object has it, else \<^verbatim>\<open>source()\<close>.\<close>

definition caching_content :: "world \<Rightarrow> source \<Rightarrow> err + bytes" where
  "caching_content w s =
     (case body s of
        Content (Some b) c \<Rightarrow> Inr b
      | _ \<Rightarrow> (case source_source s of Inl e \<Rightarrow> Inl e | Inr c \<Rightarrow> Inr (to_buffer w c)))"

definition legacy_content :: "world \<Rightarrow> source \<Rightarrow> err + bytes" where
  "legacy_content w s =
     (case source_source s of Inl e \<Rightarrow> Inl e | Inr c \<Rightarrow> Inr (to_buffer w c))"

subsection \<open>emitAssets: one asset\<close>

text \<open>
  The work on one asset is cut where the code hands a callback to the file system. A
  \<open>pending\<close> value is such a callback with the variables its closure has captured:
  \<open>PMkdirp\<close> waits for the directory of the asset and continues with \<^verbatim>\<open>writeOut\<close>;
  \<open>PWrite\<close> waits for the write in caching mode and holds the generation that was read
  before the write was issued; \<open>PWriteLegacy\<close> waits for the write in legacy mode.
\<close>

datatype pending =
    PMkdirp string srcid path path
  | PWrite string srcid path "nat option" bytes
  | PWriteLegacy string path bytes

datatype step = Pending pending | Finished "err option" | Threw err

fun pending_file :: "pending \<Rightarrow> string" where
  "pending_file (PMkdirp file src targetFile dir) = file"
| "pending_file (PWrite file src targetPath gen content) = file"
| "pending_file (PWriteLegacy file targetPath content) = file"

definition futureEmitAssets :: "compiler \<Rightarrow> err + bool" where
  "futureEmitAssets c =
     (case output_opts (options c) of
        None \<Rightarrow> Inl (TypeError ''Cannot read property futureEmitAssets of undefined'')
      | Some out \<Rightarrow>
          Inr (truthy (case map_of out ''futureEmitAssets'' of Some v \<Rightarrow> v | None \<Rightarrow> JUndefined)))"

definition new_cache_entry :: cache_entry where
  "new_cache_entry = \<lparr>sizeOnlySource = None, writtenTo = []\<rparr>"

definition cache_entry_of :: "compiler \<Rightarrow> srcid \<Rightarrow> cache_entry" where
  "cache_entry_of c src =
     (case map_of (assetEmittingSourceCache c) src of Some ce \<Rightarrow> ce | None \<Rightarrow> new_cache_entry)"

definition set_cache_entry :: "srcid \<Rightarrow> cache_entry \<Rightarrow> state \<Rightarrow> state" where
  "set_cache_entry src ce st =
     st\<lparr>self := (self st)\<lparr>assetEmittingSourceCache :=
            set_assoc src ce (assetEmittingSourceCache (self st))\<rparr>\<rparr>"

definition set_source :: "srcid \<Rightarrow> source \<Rightarrow> state \<Rightarrow> state" where
  "set_source src s st = st\<lparr>sources := (sources st)[src := s]\<rparr>"

definition new_source :: "source_body \<Rightarrow> state \<Rightarrow> state" where
  "new_source b st = st\<lparr>sources := sources st @ [\<lparr>body = b, existsAt = None, emitted = None\<rparr>]\<rparr>"

text \<open>
  \<^verbatim>\<open>writeOut()\<close> without an error, lines 861 to 938, up to the point where it returns:
  the asset is skipped, or the write is issued, or reading the content throws. An asset
  value that is no object of the store stands for \<^verbatim>\<open>undefined\<close>.
\<close>

definition writeOut ::
  "world \<Rightarrow> path \<Rightarrow> string \<Rightarrow> srcid \<Rightarrow> path \<Rightarrow> state \<times> compilation \<Rightarrow>
     step \<times> state \<times> compilation" where
  "writeOut w outPath file src targetFile sc =
     (case sc of (st, cpl) \<Rightarrow>
        let targetPath = fs_join w outPath targetFile
        in case futureEmitAssets (self st) of
             Inl e \<Rightarrow> (Threw e, st, cpl)
           | Inr future \<Rightarrow>
               if \<not> src < length (sources st)
               then (Threw (TypeError ''Cannot use undefined as a content object''), st, cpl)
               else if future then
                 (let targetFileGeneration =
                        map_of (assetEmittingWrittenFiles (self st)) targetPath;
                      cacheEntry = cache_entry_of (self st) src;
                      st1 = set_cache_entry src cacheEntry st
                  in if targetFileGeneration \<noteq> None
                        \<and> map_of (writtenTo cacheEntry) targetPath = targetFileGeneration
                     then (Finished None, st1, cpl)
                     else
                       (case caching_content w (sources st ! src) of
                          Inl e \<Rightarrow> (Threw e, st1, cpl)
                        | Inr content \<Rightarrow>
                            (let sid = length (sources st1);
                                 st2 = set_cache_entry src
                                         (cacheEntry\<lparr>sizeOnlySource := Some sid\<rparr>)
                                         (new_source (SizeOnlySource (length content)) st1);
                                 comp1 = cpl\<lparr>assets := set_assoc file sid (assets cpl)\<rparr>
                             in (Pending (PWrite file src targetPath targetFileGeneration content),
                                 log (WriteFile targetPath content) st2, comp1))))
               else
                 (let s = sources st ! src
                  in if existsAt s = Some targetPath
                     then (Finished None, set_source src (s\<lparr>emitted := Some False\<rparr>) st, cpl)
                     else
                       (case legacy_content w s of
                          Inl e \<Rightarrow> (Threw e, st, cpl)
                        | Inr content \<Rightarrow>
                            (Pending (PWriteLegacy file targetPath content),
                             log (WriteFile targetPath content)
                               (set_source src
                                  (s\<lparr>existsAt := Some targetPath, emitted := Some True\<rparr>) st),
                             cpl))))"

text \<open>
  The iterator handed to \<^verbatim>\<open>forEachLimit\<close>, lines 853 to 947, up to its first return.
\<close>

definition start_task ::
  "world \<Rightarrow> path \<Rightarrow> string \<Rightarrow> state \<times> compilation \<Rightarrow> step \<times> state \<times> compilation" where
  "start_task w outPath file sc =
     (case sc of (st, cpl) \<Rightarrow>
        (case map_of (assets cpl) file of
           None \<Rightarrow> (Threw (TypeError ''Cannot use undefined as a content object''), st, cpl)
         | Some src \<Rightarrow>
             (let targetFile = takeWhile (\<lambda>c. c \<noteq> CHR ''?'') file
              in if CHR ''/'' \<in> set targetFile \<or> backslash \<in> set targetFile
                 then (let dir = fs_join w outPath (path_dirname w targetFile)
                       in (Pending (PMkdirp file src targetFile dir), log (Mkdirp dir) st, cpl))
                 else writeOut w outPath file src targetFile (st, cpl))))"

text \<open>
  The file system answers a pending callback in compile cycle \<open>n\<close>: \<^verbatim>\<open>writeOut(err)\<close>
  after \<^verbatim>\<open>mkdirp\<close>, or the callback of \<^verbatim>\<open>writeFile\<close>, lines 910 to 921.
\<close>

definition complete ::
  "world \<Rightarrow> nat \<Rightarrow> path \<Rightarrow> pending \<Rightarrow> state \<times> compilation \<Rightarrow> step \<times> state \<times> compilation" where
  "complete w n outPath p sc =
     (case sc of (st, cpl) \<Rightarrow>
        (case p of
           PMkdirp file src targetFile dir \<Rightarrow>
             (case fs_mkdirp w dir n of
                Some e \<Rightarrow> (Finished (Some e), st, cpl)
              | None \<Rightarrow> writeOut w outPath file src targetFile (st, cpl))
         | PWrite file src targetPath targetFileGeneration content \<Rightarrow>
             (case fs_writeFile w targetPath content n of
                Some e \<Rightarrow> (Finished (Some e), st, cpl)
              | None \<Rightarrow>
                  (let newGeneration =
                         (case targetFileGeneration of None \<Rightarrow> 1 | Some g \<Rightarrow> g + 1);
                       cacheEntry = cache_entry_of (self st) src;
                       st1 = set_cache_entry src
                               (cacheEntry\<lparr>writtenTo :=
                                  set_assoc targetPath newGeneration (writtenTo cacheEntry)\<rparr>) st;
                       st2 = st1\<lparr>self := (self st1)\<lparr>assetEmittingWrittenFiles :=
                                 set_assoc targetPath newGeneration
                                   (assetEmittingWrittenFiles (self st1))\<rparr>\<rparr>
                   in (Finished None, st2,
                       cpl\<lparr>emittedAssets :=
                              (if file \<in> set (emittedAssets cpl) then emittedAssets cpl
                               else emittedAssets cpl @ [file])\<rparr>)))
         | PWriteLegacy file targetPath content \<Rightarrow>
             (Finished (fs_writeFile w targetPath content n), st, cpl)))"

subsection \<open>emitAssets: the limiter\<close>

text \<open>
  Modelled from the spec: \<^verbatim>\<open>forEachLimit\<close> belongs to the library \<^verbatim>\<open>neo-async\<close>,
  which is not part of the file. Sections 4.3 and 5: the assets are taken in the order
  of the mapping; at most \<open>lim\<close> iterator calls are in flight, the others wait in the
  queue; a finished call lets the next one start; after the first error no further call
  starts, and the calls in flight are not cancelled. \<open>first_err\<close> is the error passed to
  the final callback, \<open>thrown\<close> an exception that escaped an iterator call.
\<close>

record sched =
  st_of :: state
  comp_of :: compilation
  inflight :: "pending list"
  first_err :: "err option"
  thrown :: "err option"

definition blocked :: "nat \<Rightarrow> sched \<Rightarrow> bool" where
  "blocked lim s = (first_err s \<noteq> None \<or> thrown s \<noteq> None \<or> lim \<le> length (inflight s))"

definition remove_nth :: "nat \<Rightarrow> 'a list \<Rightarrow> 'a list" where
  "remove_nth i xs = take i xs @ drop (Suc i) xs"

text \<open>The iterator call for the asset \<open>f\<close> has returned with \<open>rs\<close>.\<close>

definition started :: "string \<Rightarrow> step \<times> state \<times> compilation \<Rightarrow> sched \<Rightarrow> sched" where
  "started f rs s =
     (case rs of (r, st', c') \<Rightarrow>
        (case r of
           Pending p \<Rightarrow> s\<lparr>st_of := st', comp_of := c', inflight := inflight s @ [p]\<rparr>
         | Finished eo \<Rightarrow>
             s\<lparr>st_of := log (TaskDone f eo) st', comp_of := c',
               first_err := (case first_err s of None \<Rightarrow> eo | Some e0 \<Rightarrow> Some e0)\<rparr>
         | Threw e \<Rightarrow> s\<lparr>st_of := st', comp_of := c', thrown := Some e\<rparr>))"

text \<open>The pending callback at position \<open>i\<close>, of the asset \<open>f\<close>, has run with \<open>rs\<close>.\<close>

definition answered :: "nat \<Rightarrow> string \<Rightarrow> step \<times> state \<times> compilation \<Rightarrow> sched \<Rightarrow> sched" where
  "answered i f rs s =
     (case rs of (r, st', c') \<Rightarrow>
        (case r of
           Pending p \<Rightarrow> s\<lparr>st_of := st', comp_of := c', inflight := (inflight s)[i := p]\<rparr>
         | Finished eo \<Rightarrow>
             s\<lparr>st_of := log (TaskDone f eo) st', comp_of := c',
               inflight := remove_nth i (inflight s),
               first_err := (case first_err s of None \<Rightarrow> eo | Some e0 \<Rightarrow> Some e0)\<rparr>
         | Threw e \<Rightarrow>
             s\<lparr>st_of := st', comp_of := c', inflight := remove_nth i (inflight s),
               thrown := Some e\<rparr>))"

text \<open>The limiter starts queued assets while it may.\<close>

fun fill :: "world \<Rightarrow> path \<Rightarrow> nat \<Rightarrow> string list \<Rightarrow> sched \<Rightarrow> string list \<times> sched" where
  "fill w outPath lim [] s = ([], s)"
| "fill w outPath lim (f # fs) s =
     (if blocked lim s then (f # fs, s)
      else fill w outPath lim fs
             (started f (start_task w outPath f (log (TaskStart f) (st_of s), comp_of s)) s))"

text \<open>
  One answer of the file system: the environment picks which pending callback runs at
  tick \<open>k\<close>; an iterator call that has ended lets the limiter look at its queue.
\<close>

definition drain_step ::
  "world \<Rightarrow> nat \<Rightarrow> path \<Rightarrow> nat \<Rightarrow> nat \<Rightarrow> string list \<times> sched \<Rightarrow> string list \<times> sched" where
  "drain_step w n outPath lim k qs =
     (case qs of (q, s) \<Rightarrow>
        (let i = pick w k mod length (inflight s);
             p = inflight s ! i;
             rs = complete w n outPath p (st_of s, comp_of s);
             s' = answered i (pending_file p) rs s
         in case fst rs of
              Finished eo \<Rightarrow> fill w outPath lim q s'
            | Pending p' \<Rightarrow> (q, s')
            | Threw e \<Rightarrow> (q, s')))"

fun pweight :: "pending \<Rightarrow> nat" where
  "pweight (PMkdirp file src targetFile dir) = 2"
| "pweight (PWrite file src targetPath gen content) = 1"
| "pweight (PWriteLegacy file targetPath content) = 1"

definition weight :: "string list \<times> sched \<Rightarrow> nat" where
  "weight qs = 3 * length (fst qs) + sum_list (map pweight (inflight (snd qs)))"


text \<open>
  The file system keeps answering until nothing is pending, or until an exception
  escapes. Every answer takes one pending callback nearer to its end, so this ends.
\<close>

function drain ::
  "world \<Rightarrow> nat \<Rightarrow> path \<Rightarrow> nat \<Rightarrow> nat \<Rightarrow> string list \<times> sched \<Rightarrow> string list \<times> sched" where
  "drain w n outPath lim k qs =
     (if inflight (snd qs) = [] \<or> thrown (snd qs) \<noteq> None then qs
      else drain w n outPath lim (Suc k) (drain_step w n outPath lim k qs))"
  by pat_completeness auto
termination
proof (relation "measure (\<lambda>(w, n, outPath, lim, k, qs). weight qs)", goal_cases)
  case 1
  show ?case by simp
next
  case (2 w n outPath lim k qs)
  have wo: "pweight p = 1"
    if "writeOut w outPath fnm src targetFile sc = (Pending p, st', c')"
    for fnm src targetFile sc p st' c'
    using that
    by (auto simp: writeOut_def Let_def split: prod.splits sum.splits if_splits)
  have stt: "pweight p \<le> 2"
    if "start_task w outPath f sc = (Pending p, st', c')" for f sc p st' c'
    using that wo
    by (fastforce simp: start_task_def Let_def split: prod.splits option.splits if_splits)
  have sw: "sum_list (map pweight (inflight (started f rs s)))
            \<le> 2 + sum_list (map pweight (inflight s))"
    if "rs = start_task w outPath f sc" for f rs s sc
  proof -
    obtain r st' c' where rs: "rs = (r, st', c')" by (metis prod_cases3)
    show ?thesis
    proof (cases r)
      case (Pending p)
      then have "pweight p \<le> 2" using stt that rs by metis
      then show ?thesis using rs Pending by (simp add: started_def)
    qed (simp_all add: rs started_def)
  qed
  have fl: "weight (fill w outPath lim q s) \<le> 3 * length q + sum_list (map pweight (inflight s))"
    for q s
  proof (induction q arbitrary: s)
    case Nil
    show ?case by (simp add: weight_def)
  next
    case (Cons f fs)
    show ?case
    proof (cases "blocked lim s")
      case True
      then show ?thesis by (simp add: weight_def)
    next
      case False
      let ?s = "started f (start_task w outPath f (log (TaskStart f) (st_of s), comp_of s)) s"
      have "weight (fill w outPath lim fs ?s)
            \<le> 3 * length fs + sum_list (map pweight (inflight ?s))" by (rule Cons.IH)
      moreover have "sum_list (map pweight (inflight ?s))
                     \<le> 2 + sum_list (map pweight (inflight s))" by (rule sw [OF refl])
      ultimately show ?thesis using False by simp
    qed
  qed
  have rm: "sum_list (map pweight (remove_nth i xs)) + pweight (xs ! i) = sum_list (map pweight xs)"
    if "i < length xs" for i xs
  proof -
    have "xs = take i xs @ xs ! i # drop (Suc i) xs" using that by (rule id_take_nth_drop)
    then have "sum_list (map pweight xs)
               = sum_list (map pweight (take i xs @ xs ! i # drop (Suc i) xs))" by simp
    then show ?thesis by (simp add: remove_nth_def)
  qed
  have up: "sum_list (map pweight (xs[i := p'])) + pweight (xs ! i)
            = sum_list (map pweight xs) + pweight p'"
    if "i < length xs" for i xs p'
  proof -
    have a: "xs = take i xs @ xs ! i # drop (Suc i) xs" using that by (rule id_take_nth_drop)
    have b: "xs[i := p'] = take i xs @ p' # drop (Suc i) xs"
      using that by (rule upd_conv_take_nth_drop)
    have "sum_list (map pweight xs)
          = sum_list (map pweight (take i xs @ xs ! i # drop (Suc i) xs))"
      using a by simp
    then show ?thesis unfolding b by simp
  qed
  have co: "pweight p' < pweight p"
    if "complete w n outPath p sc = (Pending p', st', c')" for p sc p' st' c'
    using that wo
    by (cases p) (fastforce simp: complete_def Let_def split: prod.splits option.splits)+
  have pw: "0 < pweight p" for p by (cases p) simp_all
  obtain q s where qs: "qs = (q, s)" by (cases qs)
  from 2 qs have ne: "inflight s \<noteq> []" by simp
  define i where "i = pick w k mod length (inflight s)"
  have il: "i < length (inflight s)" using ne by (simp add: i_def)
  obtain r st' c' where
    r: "complete w n outPath (inflight s ! i) (st_of s, comp_of s) = (r, st', c')"
    by (metis prod_cases3)
  let ?s = "answered i (pending_file (inflight s ! i)) (r, st', c') s"
  have "weight (drain_step w n outPath lim k (q, s)) < weight (q, s)"
  proof (cases r)
    case (Pending p')
    have "pweight p' < pweight (inflight s ! i)" using co r Pending by blast
    with up [OF il, of p'] show ?thesis
      using r Pending
      by (simp add: drain_step_def Let_def i_def [symmetric] weight_def answered_def)
  next
    case (Finished eo)
    have "weight (fill w outPath lim q ?s)
          \<le> 3 * length q + sum_list (map pweight (inflight ?s))" by (rule fl)
    moreover have "inflight ?s = remove_nth i (inflight s)"
      using Finished by (simp add: answered_def)
    ultimately show ?thesis
      using rm [OF il] pw [of "inflight s ! i"] r Finished
      by (simp add: drain_step_def Let_def i_def [symmetric] weight_def)
  next
    case (Threw e)
    with rm [OF il] pw [of "inflight s ! i"] show ?thesis
      using r by (simp add: drain_step_def Let_def i_def [symmetric] weight_def answered_def)
  qed
  then show ?case using qs by simp
qed

declare drain.simps [simp del]

subsection \<open>emitAssets\<close>

text \<open>
  Lines 844 to 967. The \<^verbatim>\<open>emit\<close> hook, the output directory, then every asset through
  the limiter with the bound 15. The final callback of the limiter returns an error
  straight to the caller; without an error it fires \<^verbatim>\<open>afterEmit\<close> and passes on what
  that hook reports. The result is taken once no callback is pending any more.
\<close>

definition emitAssets ::
  "world \<Rightarrow> nat \<Rightarrow> compilation \<Rightarrow> state \<Rightarrow> unit outcome \<times> state \<times> compilation" where
  "emitAssets w n cpl st0 =
     (case callAsync w n ''emit'' (log (Enter ''emitAssets'') st0) of
        (Fail e, st1) \<Rightarrow> (Fail e, st1, cpl)
      | (Crash e, st1) \<Rightarrow> (Crash e, st1, cpl)
      | (Ok u, st1) \<Rightarrow>
          (let outPath = getPath w (outputPath (self st1)) n
           in case outputFileSystem (self st1) of
                None \<Rightarrow> (Crash (TypeError ''Cannot read property mkdirp of null''), st1, cpl)
              | Some fs \<Rightarrow>
                  (case fs_mkdirp w outPath n of
                     Some e \<Rightarrow> (Fail e, log (Mkdirp outPath) st1, cpl)
                   | None \<Rightarrow>
                       (case drain w n outPath 15 0
                               (fill w outPath 15 (map fst (assets cpl))
                                  \<lparr>st_of = log (Mkdirp outPath) st1, comp_of = cpl,
                                   inflight = [], first_err = None, thrown = None\<rparr>) of
                          (q, s) \<Rightarrow>
                            (case thrown s of
                               Some e \<Rightarrow> (Crash e, st_of s, comp_of s)
                             | None \<Rightarrow>
                                 (case first_err s of
                                    Some e \<Rightarrow> (Fail e, st_of s, comp_of s)
                                  | None \<Rightarrow>
                                      (case callAsync w n ''afterEmit'' (st_of s) of
                                         (r, st2) \<Rightarrow> (r, st2, comp_of s))))))))"

subsection \<open>compile\<close>

definition compilation_step :: "string \<Rightarrow> err option \<Rightarrow> state \<Rightarrow> unit outcome \<times> state" where
  "compilation_step nm r st = ((case r of Some e \<Rightarrow> Fail e | None \<Rightarrow> Ok ()), log (Enter nm) st)"

text \<open>
  \<^verbatim>\<open>newCompilation\<close> without its two hooks, lines 1073 to 1078; the assets are those
  the collaborators have put there by the time the compilation is sealed.
\<close>

definition createCompilation :: "world \<Rightarrow> nat \<Rightarrow> compiler \<Rightarrow> compilation" where
  "createCompilation w n c =
     \<lparr>comp_name = name c,
      comp_records = records c,
      comp_fileTimestamps = fileTimestamps c,
      comp_contextTimestamps = contextTimestamps c,
      compilationDependencies = [],
      assets = sealed_assets w n,
      emittedAssets = [],
      needAdditionalPass = False\<rparr>"

text \<open>Lines 1106 to 1135, with \<^verbatim>\<open>newCompilationParams\<close> and \<^verbatim>\<open>newCompilation\<close>.\<close>

definition compile :: "world \<Rightarrow> nat \<Rightarrow> state \<Rightarrow> compilation outcome \<times> state" where
  "compile w n st0 =
     andThen (call w n ''normalModuleFactory'' (log (Enter ''compile'') st0)) (\<lambda>u st.
     andThen (call w n ''contextModuleFactory'' st) (\<lambda>u st.
     andThen (callAsync w n ''beforeCompile'' st) (\<lambda>u st.
     andThen (call w n ''compile'' st) (\<lambda>u st.
     andThen (call w n ''thisCompilation'' st) (\<lambda>u st.
     andThen (call w n ''compilation'' st) (\<lambda>u st.
     andThen (callAsync w n ''make'' st) (\<lambda>u st.
     andThen (compilation_step ''Compilation.finish'' (compilation_finish w n) st) (\<lambda>u st.
     andThen (compilation_step ''Compilation.seal'' (compilation_seal w n) st) (\<lambda>u st.
     andThen (callAsync w n ''afterCompile'' st) (\<lambda>u st.
       (Ok (createCompilation w n (self st)), st)))))))))))"

subsection \<open>run and watch\<close>

datatype run_result = Callback "err option" "stats option" | Uncaught err

definition new_Stats :: "world \<Rightarrow> compilation \<Rightarrow> nat \<Rightarrow> state \<Rightarrow> stats" where
  "new_Stats w cpl t0 st =
     \<lparr>stats_compilation = cpl, startTime = t0, endTime = date_now w (length (trace st))\<rparr>"

text \<open>\<^verbatim>\<open>finalCallback\<close>, lines 739 to 746, for an error and for a result.\<close>

definition finalCallback ::
  "world \<Rightarrow> nat \<Rightarrow> err option \<Rightarrow> stats option \<Rightarrow> state \<Rightarrow> run_result \<times> state" where
  "finalCallback w n er sts st =
     (let st1 = st\<lparr>self := (self st)\<lparr>running := False\<rparr>\<rparr>
      in case er of
           None \<Rightarrow> (Callback None sts, st1)
         | Some e \<Rightarrow>
             (case call w n ''failed'' st1 of
                (Crash e', st2) \<Rightarrow> (Uncaught e', st2)
              | (r, st2) \<Rightarrow> (Callback (Some e) sts, st2)))"

text \<open>The end of each branch of \<^verbatim>\<open>onCompiled\<close>: the \<^verbatim>\<open>done\<close> hook, then the final callback.\<close>

definition done_and_finish ::
  "world \<Rightarrow> nat \<Rightarrow> stats \<Rightarrow> state \<Rightarrow> run_result \<times> state" where
  "done_and_finish w n sts st =
     (case callAsync w n ''done'' st of
        (Ok u, st1) \<Rightarrow> finalCallback w n None (Some sts) st1
      | (Fail e, st1) \<Rightarrow> finalCallback w n (Some e) None st1
      | (Crash e, st1) \<Rightarrow> (Uncaught e, st1))"

text \<open>
  \<^verbatim>\<open>this.compile(onCompiled)\<close>, lines 753 to 804: compile cycle \<open>n\<close> and what follows
  it. The code sets no bound on the additional passes; the first argument bounds how many
  cycles are followed, and \<open>None\<close> says that the build has not returned within them.
\<close>

fun compile_cycles ::
  "nat \<Rightarrow> world \<Rightarrow> nat \<Rightarrow> nat \<Rightarrow> state \<Rightarrow> (run_result \<times> state) option" where
  "compile_cycles 0 w t0 n st = None"
| "compile_cycles (Suc fuel) w t0 n st =
     (case compile w n st of
        (Fail e, st1) \<Rightarrow> Some (finalCallback w n (Some e) None st1)
      | (Crash e, st1) \<Rightarrow> Some (Uncaught e, st1)
      | (Ok cpl, st1) \<Rightarrow>
          (case call w n ''shouldEmit'' st1 of
             (Fail e, st2) \<Rightarrow> Some (Uncaught e, st2)
           | (Crash e, st2) \<Rightarrow> Some (Uncaught e, st2)
           | (Ok v, st2) \<Rightarrow>
               if v = JBool False
               then Some (done_and_finish w n (new_Stats w cpl t0 st2) st2)
               else
                 (case emitAssets w n cpl st2 of
                    (Fail e, st3, cpl1) \<Rightarrow> Some (finalCallback w n (Some e) None st3)
                  | (Crash e, st3, cpl1) \<Rightarrow> Some (Uncaught e, st3)
                  | (Ok u, st3, cpl1) \<Rightarrow>
                      if truthy (needAdditionalPass_call w n)
                      then
                        (case callAsync w n ''done'' st3 of
                           (Fail e, st4) \<Rightarrow> Some (finalCallback w n (Some e) None st4)
                         | (Crash e, st4) \<Rightarrow> Some (Uncaught e, st4)
                         | (Ok u, st4) \<Rightarrow>
                             (case callAsync w n ''additionalPass'' st4 of
                                (Fail e, st5) \<Rightarrow> Some (finalCallback w n (Some e) None st5)
                              | (Crash e, st5) \<Rightarrow> Some (Uncaught e, st5)
                              | (Ok u, st5) \<Rightarrow> compile_cycles fuel w t0 (Suc n) st5))
                      else
                        (case emitRecords w n st3 of
                           (Fail e, st4) \<Rightarrow> Some (finalCallback w n (Some e) None st4)
                         | (Crash e, st4) \<Rightarrow> Some (Uncaught e, st4)
                         | (Ok u, st4) \<Rightarrow>
                             Some (done_and_finish w n (new_Stats w cpl1 t0 st4) st4)))))"

text \<open>Lines 735 to 819.\<close>

definition run :: "nat \<Rightarrow> world \<Rightarrow> state \<Rightarrow> (run_result \<times> state) option" where
  "run fuel w st =
     (if running (self st) then Some (Callback (Some ConcurrentCompilationError) None, st)
      else
        (let t0 = date_now w (length (trace st));
             st1 = st\<lparr>self := (self st)\<lparr>running := True\<rparr>\<rparr>
         in case andThen (callAsync w 0 ''beforeRun'' st1) (\<lambda>u st.
                 andThen (callAsync w 0 ''run'' st) (\<lambda>u st. readRecords w 0 st)) of
              (Fail e, st2) \<Rightarrow> Some (finalCallback w 0 (Some e) None st2)
            | (Crash e, st2) \<Rightarrow> Some (Uncaught e, st2)
            | (Ok u, st2) \<Rightarrow> compile_cycles fuel w t0 0 st2))"

datatype watch_result = HandlerCalled err | Watching

text \<open>
  Lines 724 to 733. The class \<^verbatim>\<open>Watching\<close> is not part of the file; the call ends
  with its construction.
\<close>

definition watch :: "state \<Rightarrow> watch_result \<times> state" where
  "watch st =
     (if running (self st) then (HandlerCalled ConcurrentCompilationError, st)
      else (Watching,
            st\<lparr>self := (self st)\<lparr>running := True, watchMode := True, fileTimestamps := [],
                                  contextTimestamps := [], removedFiles := []\<rparr>\<rparr>))"


section \<open>Observing a trace\<close>

fun is_tap :: "event \<Rightarrow> bool" where
  "is_tap (TapRun h f) = True"
| "is_tap e = False"

fun is_io :: "event \<Rightarrow> bool" where
  "is_io (Mkdirp p) = True"
| "is_io (WriteFile p b) = True"
| "is_io (Stat p) = True"
| "is_io (ReadFile p) = True"
| "is_io (TaskStart f) = True"
| "is_io (TaskDone f r) = True"
| "is_io e = False"

fun is_hook :: "string \<Rightarrow> event \<Rightarrow> bool" where
  "is_hook h (HookCall h' n) = (h' = h)"
| "is_hook h e = False"

fun is_write :: "path \<Rightarrow> event \<Rightarrow> bool" where
  "is_write p (WriteFile p' b) = (p' = p)"
| "is_write p e = False"

definition count_ev :: "(event \<Rightarrow> bool) \<Rightarrow> event list \<Rightarrow> nat" where
  "count_ev P tr = length (filter P tr)"

text \<open>The events of a trace that came after the first \<open>k\<close>.\<close>

definition since :: "state \<Rightarrow> state \<Rightarrow> event list" where
  "since st st' = drop (length (trace st)) (trace st')"

text \<open>No tap fails in compile cycle \<open>n\<close>, and no tap answers \<^verbatim>\<open>false\<close>.\<close>

definition taps_ok :: "world \<Rightarrow> nat \<Rightarrow> bool" where
  "taps_ok w n = (\<forall>f. \<exists>v. tap_result w f n = Returns v \<and> v \<noteq> JBool False)"

text \<open>The hooks that the constructor creates are all there.\<close>

definition has_hooks :: "compiler \<Rightarrow> bool" where
  "has_hooks c = list_all (\<lambda>h. map_of (hooks c) h \<noteq> None) (map fst compiler_hooks)"

text \<open>A step that changes nothing of the state but adds the events \<open>evs\<close>.\<close>

definition touched :: "state \<Rightarrow> state \<Rightarrow> event list \<Rightarrow> bool" where
  "touched st st' evs = (st' = st\<lparr>trace := trace st @ evs\<rparr>)"

text \<open>
  What the two caches of the Compiler say: the generation recorded for a target path, and
  the generation at which a content object was last written there.
\<close>

definition generation :: "compiler \<Rightarrow> path \<Rightarrow> nat option" where
  "generation c p = map_of (assetEmittingWrittenFiles c) p"

definition written_generation :: "compiler \<Rightarrow> srcid \<Rightarrow> path \<Rightarrow> nat option" where
  "written_generation c src p = map_of (writtenTo (cache_entry_of c src)) p"

definition cached :: "compiler \<Rightarrow> srcid \<Rightarrow> path \<Rightarrow> bool" where
  "cached c src p = (generation c p \<noteq> None \<and> written_generation c src p = generation c p)"

fun is_enter :: "string \<Rightarrow> event \<Rightarrow> bool" where
  "is_enter nm (Enter nm') = (nm' = nm)"
| "is_enter nm e = False"

text \<open>
  Events of the file system issued for one asset; the number of iterator calls in flight
  after a list of events, starting from \<open>c\<close>, and the largest number seen on the way.
\<close>

fun is_fs :: "event \<Rightarrow> bool" where
  "is_fs (Mkdirp p) = True"
| "is_fs (WriteFile p b) = True"
| "is_fs e = False"

fun bump :: "nat \<Rightarrow> event \<Rightarrow> nat" where
  "bump c (TaskStart f) = Suc c"
| "bump c (TaskDone f r) = c - 1"
| "bump c e = c"

fun flight :: "nat \<Rightarrow> event list \<Rightarrow> nat" where
  "flight c [] = c"
| "flight c (e # es) = flight (bump c e) es"

fun peak :: "nat \<Rightarrow> event list \<Rightarrow> nat" where
  "peak c [] = c"
| "peak c (e # es) = max c (peak (bump c e) es)"

text \<open>The error of the first iterator call that ended with one.\<close>

fun first_failure :: "event list \<Rightarrow> err option" where
  "first_failure [] = None"
| "first_failure (TaskDone f (Some e) # es) = Some e"
| "first_failure (ev # es) = first_failure es"

text \<open>
  What an emission may change: the two caches of the Compiler, the trace, and the store of
  content objects, which only grows or has the legacy marks of an object set.
\<close>

definition same_except_caches :: "compiler \<Rightarrow> compiler \<Rightarrow> bool" where
  "same_except_caches c c' =
     (c' = c\<lparr>assetEmittingSourceCache := assetEmittingSourceCache c',
              assetEmittingWrittenFiles := assetEmittingWrittenFiles c'\<rparr>)"

definition sources_extend :: "source list \<Rightarrow> source list \<Rightarrow> bool" where
  "sources_extend S S' = (length S \<le> length S' \<and> (\<forall>i < length S. body (S' ! i) = body (S ! i)))"

definition emits :: "state \<Rightarrow> state \<Rightarrow> event list \<Rightarrow> bool" where
  "emits st st' evs =
     (trace st' = trace st @ evs \<and> heap st' = heap st
      \<and> same_except_caches (self st) (self st') \<and> sources_extend (sources st) (sources st'))"

definition assets_but :: "string \<Rightarrow> compilation \<Rightarrow> compilation \<Rightarrow> bool" where
  "assets_but f c c' =
     (c' = c\<lparr>assets := assets c', emittedAssets := emittedAssets c'\<rparr>
      \<and> (\<forall>f'. f' \<noteq> f \<longrightarrow> map_of (assets c') f' = map_of (assets c) f'))"

text \<open>
  A file system that accepts every directory and every write in compile cycle \<open>n\<close>; a
  content object of the store that still has its content; a pending callback whose
  content object has.
\<close>

definition fs_ok :: "world \<Rightarrow> nat \<Rightarrow> bool" where
  "fs_ok w n = ((\<forall>p. fs_mkdirp w p n = None) \<and> (\<forall>p b. fs_writeFile w p b n = None))"

definition content_at :: "source list \<Rightarrow> srcid \<Rightarrow> bool" where
  "content_at S src =
     (src < length S \<and> (case body (S ! src) of Content b c \<Rightarrow> True | SizeOnlySource sz \<Rightarrow> False))"

fun pending_good :: "source list \<Rightarrow> pending \<Rightarrow> bool" where
  "pending_good S (PMkdirp f src targetFile dir) = content_at S src"
| "pending_good S p = True"

definition same_but_assets :: "compilation \<Rightarrow> compilation \<Rightarrow> bool" where
  "same_but_assets c c' = (c' = c\<lparr>assets := assets c', emittedAssets := emittedAssets c'\<rparr>)"

text \<open>
  What holds of the limiter at every moment of an emission that began in the state \<open>st0\<close>
  with the compilation \<open>c0\<close> and the queue \<open>q0\<close>: the events so far belong to the tasks,
  the iterator calls in flight are those counted from the events and never more than
  \<open>lim\<close>, the error kept for the final callback is the first one a task ended with, and
  every asset is still queued, in flight, or done.
\<close>

definition limited ::
  "nat \<Rightarrow> state \<Rightarrow> compilation \<Rightarrow> string list \<Rightarrow> string list \<times> sched \<Rightarrow> bool" where
  "limited lim st0 c0 q0 qs =
     (case qs of (q, s) \<Rightarrow>
        \<exists>evs. emits st0 (st_of s) evs \<and> list_all is_io evs \<and> peak 0 evs \<le> lim
            \<and> length (inflight s) \<le> lim
            \<and> (thrown s = None \<longrightarrow> flight 0 evs = length (inflight s))
            \<and> first_err s = first_failure evs
            \<and> same_but_assets c0 (comp_of s)
            \<and> (thrown s = None \<longrightarrow>
                 (\<forall>f \<in> set q0. f \<in> set q \<or> f \<in> pending_file ` set (inflight s)
                     \<or> (\<exists>eo. TaskDone f eo \<in> set evs))))"


section \<open>Concrete builds\<close>

text \<open>
  An environment in which every tap succeeds, the file system accepts everything except
  writes to \<^verbatim>\<open>/out/bad.js\<close>, the records file \<^verbatim>\<open>/in/records.json\<close> holds
  text that does not parse, and the first compile cycle asks for an additional pass.
\<close>

definition demo_world :: world where
  "demo_world =
     \<lparr>tap_result = (\<lambda>f n. Returns JUndefined),
      fs_mkdirp = (\<lambda>p n. None),
      fs_writeFile = (\<lambda>p b n. if p = ''/out/bad.js'' then Some (Error ''EACCES'') else None),
      fs_stat = (\<lambda>p n. if p = ''/in/records.json'' then None else Some (Error ''ENOENT'')),
      fs_readFile = (\<lambda>p n. Inr []),
      fs_join = (\<lambda>a b. a @ ''/'' @ b),
      path_dirname = (\<lambda>p. ''.''),
      parseJson = (\<lambda>s. Inl ''Unexpected end of JSON input''),
      json_stringify = (\<lambda>h v. ''{}''),
      utf8_encode = (\<lambda>s. map (\<lambda>c. of_nat (of_char c :: nat)) s),
      utf8_decode = (\<lambda>b. map (\<lambda>x. char_of (unat x)) b),
      getPath = (\<lambda>p n. p),
      compilation_finish = (\<lambda>n. None),
      compilation_seal = (\<lambda>n. None),
      sealed_assets = (\<lambda>n. []),
      needAdditionalPass_call = (\<lambda>n. if n = 0 then JBool True else JUndefined),
      date_now = (\<lambda>k. k),
      pick = (\<lambda>k. 0)\<rparr>"

definition demo_compiler :: compiler where
  "demo_compiler =
     (fst (new_Compiler ''/ctx'' 0 []))
       \<lparr>outputPath := ''/out'', outputFileSystem := Some 1, inputFileSystem := Some 2,
        options := \<lparr>output_opts = Some [(''futureEmitAssets'', JBool True)]\<rparr>\<rparr>"

definition demo_source :: source where
  "demo_source = \<lparr>body = Content None (Str ''abc''), existsAt = None, emitted = None\<rparr>"

definition demo_state :: state where
  "demo_state =
     \<lparr>self = demo_compiler, heap = [empty_object], sources = [demo_source, demo_source],
      trace = []\<rparr>"

definition demo_running :: state where
  "demo_running = demo_state\<lparr>self := demo_compiler\<lparr>running := True\<rparr>\<rparr>"

definition demo_compilation :: "(string \<times> srcid) list \<Rightarrow> compilation" where
  "demo_compilation as =
     \<lparr>comp_name = None, comp_records = JRef 0, comp_fileTimestamps = [],
      comp_contextTimestamps = [], compilationDependencies = [], assets = as,
      emittedAssets = [], needAdditionalPass = False\<rparr>"

definition demo_missing :: state where
  "demo_missing = demo_state\<lparr>self := demo_compiler\<lparr>recordsInputPath := Some ''/in/none.json''\<rparr>\<rparr>"

definition demo_malformed :: state where
  "demo_malformed =
     demo_state\<lparr>self := demo_compiler\<lparr>recordsInputPath := Some ''/in/records.json''\<rparr>\<rparr>"

section \<open>Properties\<close>

lemma map_of_set_assoc: "map_of (set_assoc k v kvs) = (map_of kvs)(k \<mapsto> v)"
  by (induction kvs) auto

lemma map_of_copy_hook_taps:
  "map_of (copy_hook_taps parent child nm) x =
     (if x = nm \<and> nm \<notin> set excluded_hooks then
        (case map_of child nm of
           Some c \<Rightarrow> (case map_of parent nm of Some p \<Rightarrow> Some (c\<lparr>taps := taps p\<rparr>) | None \<Rightarrow> Some c)
         | None \<Rightarrow> None)
      else map_of child x)"
  by (auto simp: copy_hook_taps_def map_of_set_assoc split: option.splits)

lemma map_of_foldl_copy:
  "map_of (foldl (copy_hook_taps parent) child nms) x =
     (if x \<in> set nms \<and> x \<notin> set excluded_hooks then
        (case map_of child x of
           Some c \<Rightarrow> (case map_of parent x of Some p \<Rightarrow> Some (c\<lparr>taps := taps p\<rparr>) | None \<Rightarrow> Some c)
         | None \<Rightarrow> None)
      else map_of child x)"
proof (induction nms arbitrary: child)
  case Nil
  then show ?case by simp
next
  case (Cons n ns)
  show ?case
    by (auto simp: Cons.IH map_of_copy_hook_taps split: option.splits)
qed

lemma map_of_copy_taps:
  "map_of (copy_taps parent child) x =
     (case map_of parent x of
        Some p \<Rightarrow>
          (case map_of child x of
             Some c \<Rightarrow> if x \<in> set excluded_hooks then Some c else Some (c\<lparr>taps := taps p\<rparr>)
           | None \<Rightarrow> None)
      | None \<Rightarrow> map_of child x)"
proof (cases "map_of parent x")
  case None
  then have "x \<notin> set (map fst parent)" by (simp add: map_of_eq_None_iff)
  with None show ?thesis by (simp add: copy_taps_def map_of_foldl_copy)
next
  case (Some p)
  then have "x \<in> set (map fst parent)" by (metis map_of_eq_None_iff option.distinct(1) set_map)
  with Some show ?thesis by (auto simp: copy_taps_def map_of_foldl_copy split: option.splits)
qed

lemma createChildCompiler_eq:
  assumes "apply_plugins (plugin_list plugins)
             (fst (new_Compiler (context_path this) (resolverFactory this) h)) = Inr c1"
      and "child_records inh (h @ [empty_object]) (records this)
             (mpr (context_path this) nm) idx = (Inr slot, h1)"
      and "output_opts (options this) = Some out"
      and "\<And>c. hooks_childCompiler_call cn c nm idx = None"
  shows "\<exists>child. createChildCompiler mpr inh this h cn nm idx oo plugins = (Inr child, h1)
           \<and> records child = slot
           \<and> hooks child = copy_taps (hooks this) (hooks c1)"
  using assms
  by (simp add: createChildCompiler_def new_Compiler_def alloc_def plugin_list_def)

lemma createChildCompiler_hooks:
  assumes "createChildCompiler mpr inh this h cn nm idx oo plugins = (Inr child, h')"
      and "apply_plugins (plugin_list plugins)
             (fst (new_Compiler (context_path this) (resolverFactory this) h)) = Inr c1"
  shows "hooks child = copy_taps (hooks this) (hooks c1)"
  using assms
  by (auto simp: createChildCompiler_def new_Compiler_def alloc_def Let_def
           split: sum.splits option.splits prod.splits)

text \<open>
  Claim C6, as amended. Let \<open>c1\<close> be the fresh child once the plugins have been applied
  to it. For every hook name \<open>x\<close> that the parent has: if the child has a hook of that
  name and the name is not one of \<^verbatim>\<open>make\<close>, \<^verbatim>\<open>compile\<close>, \<^verbatim>\<open>emit\<close>,
  \<^verbatim>\<open>afterEmit\<close>, \<^verbatim>\<open>invalid\<close>, \<^verbatim>\<open>done\<close>, \<^verbatim>\<open>thisCompilation\<close>, the
  child's hook carries exactly the parent's tap list, in the parent's registration order;
  if the name is excluded, the child's hook keeps its own taps and the parent's are not
  copied; a parent hook that the child does not have is not created on the child.
\<close>

theorem createChildCompiler_taps:
  assumes "createChildCompiler mpr inh this h cn nm idx oo plugins = (Inr child, h')"
      and "apply_plugins (plugin_list plugins)
             (fst (new_Compiler (context_path this) (resolverFactory this) h)) = Inr c1"
  shows "map_of (hooks child) x =
           (case map_of (hooks this) x of
              Some p \<Rightarrow>
                (case map_of (hooks c1) x of
                   Some c \<Rightarrow> if x \<in> set excluded_hooks then Some c else Some (c\<lparr>taps := taps p\<rparr>)
                 | None \<Rightarrow> None)
            | None \<Rightarrow> map_of (hooks c1) x)"
  unfolding createChildCompiler_hooks [OF assms] by (rule map_of_copy_taps)

lemma demo_parent_simps:
  "context_path demo_parent = ''/ctx''" "resolverFactory demo_parent = 0"
  "records demo_parent = JRef 0" "options demo_parent = \<lparr>output_opts = Some []\<rparr>"
  "hooks demo_parent =
     set_assoc ''make'' \<lparr>kind = AsyncParallelHook, taps = [demo_tap]\<rparr>
       (set_assoc ''beforeRun'' \<lparr>kind = AsyncSeriesHook, taps = [demo_tap, demo_tap2]\<rparr>
          compiler_hooks)
     @ [(''myHook'', \<lparr>kind = SyncHook, taps = [demo_tap]\<rparr>)]"
  by (simp_all add: demo_parent_def new_Compiler_def alloc_def)

lemma demo_heap_simp: "demo_heap = [empty_object]"
  by (simp add: demo_heap_def new_Compiler_def alloc_def)

lemma demo_fresh_child:
  "apply_plugins (plugin_list None)
     (fst (new_Compiler (context_path demo_parent) (resolverFactory demo_parent) h)) =
   Inr (fst (new_Compiler ''/ctx'' 0 h))"
  by (simp add: demo_parent_simps plugin_list_def)

lemma hooks_new_Compiler: "hooks (fst (new_Compiler c r h)) = compiler_hooks"
  by (simp add: new_Compiler_def alloc_def)

lemma demo_parent_myHook:
  "map_of (hooks demo_parent) ''myHook'' = Some \<lparr>kind = SyncHook, taps = [demo_tap]\<rparr>"
  by (simp add: demo_parent_simps map_of_set_assoc compiler_hooks_def)

lemma compiler_hooks_myHook: "map_of compiler_hooks ''myHook'' = None"
  by (simp add: compiler_hooks_def)

lemma string_of_nat_0_1: "string_of_nat 0 = ''0''" "string_of_nat (Suc 0) = ''1''"
  by (simp_all add: string_of_nat.simps char_of_def bit_iff_odd)

lemma index_of_key_0_1: "index_of_key ''0'' = Some 0" "index_of_key ''1'' = Some 1"
  by (simp_all add: index_of_key_def is_digit_def)

lemma demo_no_member: "inherited_member demo_inherited r ''sub'' = JUndefined"
  "inherited_member demo_inherited r ''0'' = JUndefined"
  "inherited_member demo_inherited r ''1'' = JUndefined"
  by (simp_all add: inherited_member_def demo_inherited_def Object_prototype_def)

lemma index_of_key_sub: "index_of_key ''sub'' = None"
  by (simp add: index_of_key_def is_digit_def)

text \<open>On fresh records, the slot of \<^verbatim>\<open>sub\<close> for index 0 and for index 1.\<close>

lemma demo_child_records_fresh:
  assumes "i = 0 \<or> i = Suc 0"
  shows "child_records demo_inherited [empty_object, empty_object] (JRef 0) ''sub'' i =
     (Inr (JRef 3), [\<lparr>props = [(''sub'', JRef 2)], elems = None\<rparr>, empty_object,
                     \<lparr>props = [], elems = Some [JRef 3]\<rparr>, empty_object])"
  using assms
  by (auto simp: child_records_def get_prop_def get_index_def own_prop_def deref_def
        alloc_def set_prop_def push_def empty_object_def empty_array_def demo_no_member
        string_of_nat_0_1 index_of_key_0_1)

lemma demo_child_records_again:
  "child_records demo_inherited (demo_heap1 @ [empty_object]) (JRef 0) ''sub'' 0 =
     (Inr (JRef 3), demo_heap1 @ [empty_object])"
  by (simp add: child_records_def get_prop_def get_index_def own_prop_def deref_def
        demo_heap1_def empty_object_def string_of_nat_0_1 index_of_key_0_1)

lemma demo_record_slots:
  "record_slot demo_inherited demo_heap1 (JRef 0) ''sub'' (Suc 0) = JUndefined"
  "record_slot demo_inherited demo_heap1 (JRef 0) ''sub'' 0 = JRef 3"
  by (simp_all add: record_slot_def get_prop_def get_index_def own_prop_def deref_def
        demo_heap1_def empty_object_def string_of_nat_0_1 index_of_key_0_1 demo_no_member)

lemma demo_child:
  assumes "i = 0 \<or> i = Suc 0"
  obtains child where
    "createChildCompiler demo_makePathsRelative demo_inherited demo_parent demo_heap
         demo_parent_compilation ''sub'' i [] None =
       (Inr child, demo_heap1)"
    "records child = JRef 3"
    "hooks child = copy_taps (hooks demo_parent) (hooks (fst (new_Compiler ''/ctx'' 0 demo_heap)))"
proof -
  have cr: "child_records demo_inherited (demo_heap @ [empty_object]) (records demo_parent)
              (demo_makePathsRelative (context_path demo_parent) ''sub'') i =
            (Inr (JRef 3), demo_heap1)"
    unfolding demo_heap_simp demo_parent_simps demo_makePathsRelative_def demo_heap1_def
    using demo_child_records_fresh [OF assms] by simp
  have hk: "hooks_childCompiler_call demo_parent_compilation c ''sub'' i = None" for c
    by (simp add: demo_parent_compilation_def)
  show ?thesis
    using createChildCompiler_eq [where mpr = demo_makePathsRelative and this = demo_parent
        and h = demo_heap and nm = "''sub''" and idx = i and plugins = None
        and cn = demo_parent_compilation and oo = "[]" and inh = demo_inherited,
        OF demo_fresh_child cr _ hk] that
    by (auto simp: demo_parent_simps)
qed

lemma demo_child_again:
  obtains child where
    "createChildCompiler demo_makePathsRelative demo_inherited demo_parent demo_heap1
         demo_parent_compilation ''sub'' 0 [] None =
       (Inr child, demo_heap1 @ [empty_object])"
    "records child = JRef 3"
proof -
  have cr: "child_records demo_inherited (demo_heap1 @ [empty_object]) (records demo_parent)
              (demo_makePathsRelative (context_path demo_parent) ''sub'') 0 =
            (Inr (JRef 3), demo_heap1 @ [empty_object])"
    unfolding demo_parent_simps demo_makePathsRelative_def
    by (rule demo_child_records_again)
  have hk: "hooks_childCompiler_call demo_parent_compilation c ''sub'' 0 = None" for c
    by (simp add: demo_parent_compilation_def)
  show ?thesis
    using createChildCompiler_eq [where mpr = demo_makePathsRelative and this = demo_parent
        and h = demo_heap1 and nm = "''sub''" and idx = 0 and plugins = None
        and cn = demo_parent_compilation and oo = "[]" and inh = demo_inherited,
        OF demo_fresh_child cr _ hk] that
    by (auto simp: demo_parent_simps)
qed

text \<open>
  Claim C6 as stated fails for a parent hook that the child does not have: a parent
  with a custom hook \<^verbatim>\<open>myHook\<close> (not excluded) carrying one tap produces a child
  without any hook of that name, so that tap list is not copied.
\<close>

theorem createChildCompiler_taps_counterexample:
  "''myHook'' \<notin> set excluded_hooks
   \<and> map_of (hooks demo_parent) ''myHook'' = Some \<lparr>kind = SyncHook, taps = [demo_tap]\<rparr>
   \<and> (case fst (createChildCompiler demo_makePathsRelative demo_inherited demo_parent demo_heap
                   demo_parent_compilation ''sub'' 0 [] None) of
         Inr child \<Rightarrow> map_of (hooks child) ''myHook'' = None
       | Inl e \<Rightarrow> False)"
proof -
  obtain child where
    c: "createChildCompiler demo_makePathsRelative demo_inherited demo_parent demo_heap
          demo_parent_compilation ''sub'' 0 [] None = (Inr child, demo_heap1)"
    and hk: "hooks child = copy_taps (hooks demo_parent)
               (hooks (fst (new_Compiler ''/ctx'' 0 demo_heap)))"
    using demo_child [of 0] by auto
  have "map_of (hooks child) ''myHook'' = None"
    by (simp add: hk map_of_copy_taps demo_parent_myHook hooks_new_Compiler compiler_hooks_myHook)
  then show ?thesis
    by (simp add: c demo_parent_myHook excluded_hooks_def)
qed

text \<open>
  The amended claim C6 at a concrete parent: the two taps on \<^verbatim>\<open>beforeRun\<close> arrive on
  the child in order, the tap on \<^verbatim>\<open>make\<close> does not.
\<close>

theorem createChildCompiler_taps_witness:
  "(case fst (createChildCompiler demo_makePathsRelative demo_inherited demo_parent demo_heap
                demo_parent_compilation ''sub'' 0 [] None) of
      Inr child \<Rightarrow>
        map_of (hooks child) ''beforeRun'' =
          Some \<lparr>kind = AsyncSeriesHook, taps = [demo_tap, demo_tap2]\<rparr>
        \<and> map_of (hooks child) ''make'' = Some \<lparr>kind = AsyncParallelHook, taps = []\<rparr>
    | Inl e \<Rightarrow> False)"
proof -
  obtain child where
    c: "createChildCompiler demo_makePathsRelative demo_inherited demo_parent demo_heap
          demo_parent_compilation ''sub'' 0 [] None = (Inr child, demo_heap1)"
    using demo_child [of 0] by auto
  have p1: "map_of (hooks demo_parent) ''beforeRun'' =
              Some \<lparr>kind = AsyncSeriesHook, taps = [demo_tap, demo_tap2]\<rparr>"
    by (simp add: demo_parent_simps map_of_set_assoc)
  have p2: "map_of (hooks demo_parent) ''make'' =
              Some \<lparr>kind = AsyncParallelHook, taps = [demo_tap]\<rparr>"
    by (simp add: demo_parent_simps map_of_set_assoc)
  have c1: "map_of (hooks (fst (new_Compiler ''/ctx'' 0 demo_heap))) ''beforeRun'' =
              Some \<lparr>kind = AsyncSeriesHook, taps = []\<rparr>"
    by (simp add: hooks_new_Compiler compiler_hooks_def new_hook_def)
  have c2: "map_of (hooks (fst (new_Compiler ''/ctx'' 0 demo_heap))) ''make'' =
              Some \<lparr>kind = AsyncParallelHook, taps = []\<rparr>"
    by (simp add: hooks_new_Compiler compiler_hooks_def new_hook_def)
  have "map_of (hooks child) ''beforeRun'' =
          Some \<lparr>kind = AsyncSeriesHook, taps = [demo_tap, demo_tap2]\<rparr>"
    using createChildCompiler_taps [OF c demo_fresh_child, of "''beforeRun''"]
    by (simp add: p1 c1 excluded_hooks_def)
  moreover have "map_of (hooks child) ''make'' = Some \<lparr>kind = AsyncParallelHook, taps = []\<rparr>"
    using createChildCompiler_taps [OF c demo_fresh_child, of "''make''"]
    by (simp add: p2 c2 excluded_hooks_def)
  ultimately show ?thesis by (simp add: c)
qed

text \<open>
  Claim C7 at the input where the code departs from it. On a parent with fresh records,
  \<^verbatim>\<open>createChildCompiler(compilation, "sub", 1, {}, undefined)\<close> finds no slot at
  \<^verbatim>\<open>records.sub[1]\<close> and appends the new one with \<^verbatim>\<open>push\<close>: the child's records
  are at \<^verbatim>\<open>records.sub[0]\<close>, and \<^verbatim>\<open>records.sub[1]\<close> is still undefined. The call
  for index 0 that follows reads \<^verbatim>\<open>records.sub[0]\<close> and hands the second child that
  very object: the two indices share one slot.
\<close>

theorem createChildCompiler_records_push:
  "(case createChildCompiler demo_makePathsRelative demo_inherited demo_parent demo_heap
           demo_parent_compilation ''sub'' 1 [] None of
      (Inr child, h1) \<Rightarrow>
        records child = JRef 3
        \<and> record_slot demo_inherited h1 (records demo_parent) ''sub'' 1 = JUndefined
        \<and> record_slot demo_inherited h1 (records demo_parent) ''sub'' 0 = JRef 3
        \<and> (case createChildCompiler demo_makePathsRelative demo_inherited demo_parent h1
                   demo_parent_compilation ''sub'' 0 [] None of
              (Inr child2, h2) \<Rightarrow> records child2 = records child
            | (Inl e, h2) \<Rightarrow> False)
    | (Inl e, h1) \<Rightarrow> False)"
proof -
  obtain child where
    c: "createChildCompiler demo_makePathsRelative demo_inherited demo_parent demo_heap
          demo_parent_compilation ''sub'' (Suc 0) [] None = (Inr child, demo_heap1)"
    and rc: "records child = JRef 3"
    using demo_child [of "Suc 0"] by auto
  obtain child2 where
    c2: "createChildCompiler demo_makePathsRelative demo_inherited demo_parent demo_heap1
          demo_parent_compilation ''sub'' 0 [] None = (Inr child2, demo_heap1 @ [empty_object])"
    and rc2: "records child2 = JRef 3"
    by (rule demo_child_again)
  show ?thesis using c rc c2 rc2 demo_record_slots by (simp add: demo_parent_simps)
qed


section \<open>Properties of the build pipeline\<close>

subsection \<open>Hooks leave the state alone and add their events\<close>

lemma log_simps [simp]:
  "self (log e st) = self st" "heap (log e st) = heap st" "sources (log e st) = sources st"
  "trace (log e st) = trace st @ [e]"
  by (simp_all add: log_def)


lemma touched_refl: "touched st st []"
  by (simp add: touched_def)

lemma touched_log: "touched st (log e st) [e]"
  by (simp add: touched_def log_def)

lemma touched_trans:
  "touched st st1 evs \<Longrightarrow> touched st1 st2 evs' \<Longrightarrow> touched st st2 (evs @ evs')"
  by (simp add: touched_def)

lemma touched_fields:
  assumes "touched st st' evs"
  shows "self st' = self st" "heap st' = heap st" "sources st' = sources st"
    "trace st' = trace st @ evs"
  using assms by (simp_all add: touched_def)

lemma run_series_touched:
  "\<exists>evs. touched st (snd (run_series beh h ts st)) evs \<and> list_all is_tap evs"
proof (induction ts arbitrary: st)
  case Nil
  show ?case by (intro exI [of _ "[]"]) (simp add: touched_refl)
next
  case (Cons t ts)
  let ?e = "TapRun h (tap_fn t)"
  show ?case
  proof (cases "beh (tap_fn t)")
    case (Fails e)
    have "touched st (log ?e st) [?e]" by (rule touched_log)
    then show ?thesis using Fails by (intro exI [of _ "[?e]"]) simp
  next
    case (Returns v)
    obtain evs where "touched (log ?e st) (snd (run_series beh h ts (log ?e st))) evs"
      "list_all is_tap evs" using Cons.IH by blast
    then have "touched st (snd (run_series beh h ts (log ?e st))) ([?e] @ evs)"
      "list_all is_tap ([?e] @ evs)"
      using touched_trans [OF touched_log] by auto
    then show ?thesis using Returns by (intro exI [of _ "[?e] @ evs"]) simp
  qed
qed

lemma run_parallel_touched:
  "\<exists>evs. touched st (snd (run_parallel beh h ts st)) evs \<and> list_all is_tap evs"
proof (induction ts arbitrary: st)
  case Nil
  show ?case by (intro exI [of _ "[]"]) (simp add: touched_refl)
next
  case (Cons t ts)
  let ?e = "TapRun h (tap_fn t)"
  obtain evs where "touched (log ?e st) (snd (run_parallel beh h ts (log ?e st))) evs"
    "list_all is_tap evs" using Cons.IH by blast
  then have "touched st (snd (run_parallel beh h ts (log ?e st))) ([?e] @ evs)"
    "list_all is_tap ([?e] @ evs)"
    using touched_trans [OF touched_log] by auto
  moreover have "snd (run_parallel beh h (t # ts) st) = snd (run_parallel beh h ts (log ?e st))"
    by (simp split: prod.splits tap_result.splits)
  ultimately show ?case
    by (intro exI [of _ "[?e] @ evs"]) simp
qed

lemma run_sync_touched:
  "\<exists>evs. touched st (snd (run_sync beh h ts st)) evs \<and> list_all is_tap evs"
proof (induction ts arbitrary: st)
  case Nil
  show ?case by (intro exI [of _ "[]"]) (simp add: touched_refl)
next
  case (Cons t ts)
  let ?e = "TapRun h (tap_fn t)"
  show ?case
  proof (cases "beh (tap_fn t)")
    case (Fails e)
    have "touched st (log ?e st) [?e]" by (rule touched_log)
    then show ?thesis using Fails by (intro exI [of _ "[?e]"]) simp
  next
    case (Returns v)
    obtain evs where "touched (log ?e st) (snd (run_sync beh h ts (log ?e st))) evs"
      "list_all is_tap evs" using Cons.IH by blast
    then have "touched st (snd (run_sync beh h ts (log ?e st))) ([?e] @ evs)"
      "list_all is_tap ([?e] @ evs)"
      using touched_trans [OF touched_log] by auto
    then show ?thesis using Returns by (intro exI [of _ "[?e] @ evs"]) simp
  qed
qed

lemma run_bail_touched:
  "\<exists>evs. touched st (snd (run_bail beh h ts st)) evs \<and> list_all is_tap evs"
proof (induction ts arbitrary: st)
  case Nil
  show ?case by (intro exI [of _ "[]"]) (simp add: touched_refl)
next
  case (Cons t ts)
  let ?e = "TapRun h (tap_fn t)"
  have one: "touched st (log ?e st) [?e]" by (rule touched_log)
  obtain evs where "touched (log ?e st) (snd (run_bail beh h ts (log ?e st))) evs"
    "list_all is_tap evs" using Cons.IH by blast
  then have more: "touched st (snd (run_bail beh h ts (log ?e st))) ([?e] @ evs)"
    "list_all is_tap ([?e] @ evs)"
    using touched_trans [OF touched_log] by auto
  show ?case
  proof (cases "beh (tap_fn t)")
    case (Fails e)
    then show ?thesis using one by (intro exI [of _ "[?e]"]) simp
  next
    case (Returns v)
    show ?thesis
    proof (cases "v = JUndefined")
      case True
      then show ?thesis using Returns more by (intro exI [of _ "[?e] @ evs"]) simp
    next
      case False
      then show ?thesis using Returns one by (intro exI [of _ "[?e]"]) simp
    qed
  qed
qed

lemma run_series_ok:
  "\<forall>f. \<exists>v. beh f = Returns v \<Longrightarrow> fst (run_series beh h ts st) = Ok ()"
proof (induction ts arbitrary: st)
  case Nil
  show ?case by simp
next
  case (Cons t ts)
  from Cons.prems obtain v where "beh (tap_fn t) = Returns v" by blast
  then show ?case using Cons by simp
qed

lemma run_parallel_ok:
  "\<forall>f. \<exists>v. beh f = Returns v \<Longrightarrow> fst (run_parallel beh h ts st) = Ok ()"
proof (induction ts arbitrary: st)
  case Nil
  show ?case by simp
next
  case (Cons t ts)
  from Cons.prems obtain v where v: "beh (tap_fn t) = Returns v" by blast
  have "fst (run_parallel beh h ts (log (TapRun h (tap_fn t)) st)) = Ok ()"
    using Cons by blast
  then show ?case using v by (simp split: prod.splits)
qed

lemma run_sync_ok:
  "\<forall>f. \<exists>v. beh f = Returns v \<Longrightarrow> fst (run_sync beh h ts st) = Ok JUndefined"
proof (induction ts arbitrary: st)
  case Nil
  show ?case by simp
next
  case (Cons t ts)
  from Cons.prems obtain v where "beh (tap_fn t) = Returns v" by blast
  then show ?case using Cons by simp
qed

lemma run_bail_ok:
  "\<forall>f. \<exists>v. beh f = Returns v \<and> v \<noteq> JBool False \<Longrightarrow>
     \<exists>v. fst (run_bail beh h ts st) = Ok v \<and> v \<noteq> JBool False"
proof (induction ts arbitrary: st)
  case Nil
  show ?case by simp
next
  case (Cons t ts)
  from Cons.prems obtain v where "beh (tap_fn t) = Returns v" "v \<noteq> JBool False" by blast
  then show ?case using Cons by simp
qed

text \<open>A hook that exists: the call is logged, then the taps.\<close>

lemma callAsync_touched:
  assumes "map_of (hooks (self st)) h \<noteq> None"
  shows "\<exists>evs. touched st (snd (callAsync w n h st)) (HookCall h n # evs) \<and> list_all is_tap evs"
proof -
  from assms obtain hk where hk: "map_of (hooks (self st)) h = Some hk" by auto
  let ?st = "log (HookCall h n) st"
  let ?beh = "\<lambda>f. tap_result w f n"
  have one: "touched st ?st [HookCall h n]" by (rule touched_log)
  show ?thesis
  proof (cases "kind hk = AsyncParallelHook")
    case True
    obtain evs where "touched ?st (snd (run_parallel ?beh h (taps hk) ?st)) evs"
      "list_all is_tap evs" using run_parallel_touched by blast
    then show ?thesis using touched_trans [OF one] hk True
      by (intro exI [of _ evs]) (simp add: callAsync_def)
  next
    case False
    obtain evs where "touched ?st (snd (run_series ?beh h (taps hk) ?st)) evs"
      "list_all is_tap evs" using run_series_touched by blast
    then show ?thesis using touched_trans [OF one] hk False
      by (intro exI [of _ evs]) (simp add: callAsync_def)
  qed
qed

lemma call_touched:
  assumes "map_of (hooks (self st)) h \<noteq> None"
  shows "\<exists>evs. touched st (snd (call w n h st)) (HookCall h n # evs) \<and> list_all is_tap evs"
proof -
  from assms obtain hk where hk: "map_of (hooks (self st)) h = Some hk" by auto
  let ?st = "log (HookCall h n) st"
  let ?beh = "\<lambda>f. tap_result w f n"
  have one: "touched st ?st [HookCall h n]" by (rule touched_log)
  show ?thesis
  proof (cases "kind hk = SyncBailHook")
    case True
    obtain evs where "touched ?st (snd (run_bail ?beh h (taps hk) ?st)) evs"
      "list_all is_tap evs" using run_bail_touched by blast
    then show ?thesis using touched_trans [OF one] hk True
      by (intro exI [of _ evs]) (simp add: call_def)
  next
    case False
    obtain evs where "touched ?st (snd (run_sync ?beh h (taps hk) ?st)) evs"
      "list_all is_tap evs" using run_sync_touched by blast
    then show ?thesis using touched_trans [OF one] hk False
      by (intro exI [of _ evs]) (simp add: call_def)
  qed
qed

lemma callAsync_ok:
  assumes "map_of (hooks (self st)) h \<noteq> None" "taps_ok w n"
  shows "fst (callAsync w n h st) = Ok ()"
proof -
  have "\<forall>f. \<exists>v. tap_result w f n = Returns v" using assms(2) by (auto simp: taps_ok_def)
  then show ?thesis
    using assms(1) by (auto simp: callAsync_def run_series_ok run_parallel_ok)
qed

lemma call_ok:
  assumes "map_of (hooks (self st)) h \<noteq> None" "taps_ok w n"
  shows "\<exists>v. fst (call w n h st) = Ok v \<and> v \<noteq> JBool False"
proof -
  have a: "\<forall>f. \<exists>v. tap_result w f n = Returns v \<and> v \<noteq> JBool False"
    using assms(2) by (auto simp: taps_ok_def)
  then have b: "\<forall>f. \<exists>v. tap_result w f n = Returns v" by blast
  from assms(1) obtain hk where hk: "map_of (hooks (self st)) h = Some hk" by auto
  show ?thesis
  proof (cases "kind hk = SyncBailHook")
    case True
    then show ?thesis using hk run_bail_ok [OF a] by (simp add: call_def)
  next
    case False
    then show ?thesis using hk run_sync_ok [OF b] by (simp add: call_def)
  qed
qed

text \<open>Both at once, in the form the pipeline proofs use.\<close>

lemma callAsync_step:
  assumes "map_of (hooks (self st)) h \<noteq> None" "taps_ok w n"
  obtains evs st' where "callAsync w n h st = (Ok (), st')"
    "touched st st' (HookCall h n # evs)" "list_all is_tap evs"
  using callAsync_touched [OF assms(1), of w n] callAsync_ok [OF assms]
  by (metis prod.collapse)

lemma call_step:
  assumes "map_of (hooks (self st)) h \<noteq> None" "taps_ok w n"
  obtains v evs st' where "call w n h st = (Ok v, st')" "v \<noteq> JBool False"
    "touched st st' (HookCall h n # evs)" "list_all is_tap evs"
  using call_touched [OF assms(1), of w n] call_ok [OF assms]
  by (metis prod.collapse)

lemma has_hooksD:
  assumes "has_hooks c" "h \<in> set (map fst compiler_hooks)"
  shows "map_of (hooks c) h \<noteq> None"
  using assms unfolding has_hooks_def list_all_iff by blast

lemma std_hook_names:
  "''done'' \<in> set (map fst compiler_hooks)" "''additionalPass'' \<in> set (map fst compiler_hooks)"
  "''beforeRun'' \<in> set (map fst compiler_hooks)" "''run'' \<in> set (map fst compiler_hooks)"
  "''shouldEmit'' \<in> set (map fst compiler_hooks)" "''emit'' \<in> set (map fst compiler_hooks)"
  "''afterEmit'' \<in> set (map fst compiler_hooks)"
  "''thisCompilation'' \<in> set (map fst compiler_hooks)"
  "''compilation'' \<in> set (map fst compiler_hooks)"
  "''normalModuleFactory'' \<in> set (map fst compiler_hooks)"
  "''contextModuleFactory'' \<in> set (map fst compiler_hooks)"
  "''beforeCompile'' \<in> set (map fst compiler_hooks)"
  "''compile'' \<in> set (map fst compiler_hooks)" "''make'' \<in> set (map fst compiler_hooks)"
  "''afterCompile'' \<in> set (map fst compiler_hooks)" "''failed'' \<in> set (map fst compiler_hooks)"
  by (simp_all add: compiler_hooks_def)


subsection \<open>The re-entrancy guard\<close>

text \<open>
  Claim C1. While \<open>running\<close> is set, \<^verbatim>\<open>run\<close> hands a ConcurrentCompilationError to
  its callback at once and \<^verbatim>\<open>watch\<close> hands one to its handler; neither changes any
  field of the Compiler nor anything else of the state, so whatever the cycle in flight
  still has to do (\<open>compile_cycles\<close> from any cycle on) gives the same result after the
  refused call as without it.
\<close>

theorem run_while_running:
  assumes "running (self st)"
  shows "(case run fuel w st of
            Some (r, st') \<Rightarrow>
              r = Callback (Some ConcurrentCompilationError) None \<and> st' = st
              \<and> compile_cycles k w tstart n st' = compile_cycles k w tstart n st
          | None \<Rightarrow> False)
         \<and> (case watch st of
               (r, st') \<Rightarrow>
                 r = HandlerCalled ConcurrentCompilationError \<and> st' = st
                 \<and> compile_cycles k w tstart n st' = compile_cycles k w tstart n st)"
  using assms by (simp add: run_def watch_def)

lemma demo_running_running: "running (self demo_running)"
  by (simp add: demo_running_def)

text \<open>Claim C1 on a compiler that is running.\<close>

theorem run_while_running_witness:
  "running (self demo_running)
   \<and> run 5 demo_world demo_running =
       Some (Callback (Some ConcurrentCompilationError) None, demo_running)
   \<and> watch demo_running = (HandlerCalled ConcurrentCompilationError, demo_running)"
  using run_while_running [OF demo_running_running, where fuel = 5 and w = demo_world
      and k = 0 and tstart = 0 and n = 0]
  by (auto simp: demo_running_running split: option.splits prod.splits)

subsection \<open>SizeOnlySource\<close>

lemma writeOut_caching_write:
  assumes "futureEmitAssets (self st) = Inr True" "src < length (sources st)"
      and "\<not> (map_of (assetEmittingWrittenFiles (self st)) (fs_join w outPath targetFile) \<noteq> None
             \<and> map_of (writtenTo (cache_entry_of (self st) src)) (fs_join w outPath targetFile)
                 = map_of (assetEmittingWrittenFiles (self st)) (fs_join w outPath targetFile))"
      and "caching_content w (sources st ! src) = Inr content"
  shows "writeOut w outPath fnm src targetFile (st, cpl) =
           (Pending (PWrite fnm src (fs_join w outPath targetFile)
                       (map_of (assetEmittingWrittenFiles (self st)) (fs_join w outPath targetFile))
                       content),
            log (WriteFile (fs_join w outPath targetFile) content)
              (set_cache_entry src
                 ((cache_entry_of (self st) src)\<lparr>sizeOnlySource := Some (length (sources st))\<rparr>)
                 (new_source (SizeOnlySource (length content))
                    (set_cache_entry src (cache_entry_of (self st) src) st))),
            cpl\<lparr>assets := set_assoc fnm (length (sources st)) (assets cpl)\<rparr>)"
  using assms
  by (simp add: writeOut_def Let_def set_cache_entry_def new_source_def)

lemma writeOut_pending_caching:
  assumes "writeOut w outPath fnm src targetFile (st, cpl) =
             (Pending (PWrite f s p g content), st', cpl')"
  shows "futureEmitAssets (self st) = Inr True \<and> src < length (sources st)
         \<and> caching_content w (sources st ! src) = Inr content
         \<and> f = fnm \<and> s = src \<and> p = fs_join w outPath targetFile
         \<and> g = map_of (assetEmittingWrittenFiles (self st)) p
         \<and> \<not> (g \<noteq> None \<and> map_of (writtenTo (cache_entry_of (self st) src)) p = g)"
  using assms
  by (auto simp: writeOut_def Let_def split: sum.splits if_splits)

lemma self_set_cache_entry [simp]:
  "sources (set_cache_entry src ce st) = sources st"
  "trace (set_cache_entry src ce st) = trace st"
  "heap (set_cache_entry src ce st) = heap st"
  "assetEmittingWrittenFiles (self (set_cache_entry src ce st)) = assetEmittingWrittenFiles (self st)"
  "assetEmittingSourceCache (self (set_cache_entry src ce st)) =
     set_assoc src ce (assetEmittingSourceCache (self st))"
  "options (self (set_cache_entry src ce st)) = options (self st)"
  "hooks (self (set_cache_entry src ce st)) = hooks (self st)"
  "outputFileSystem (self (set_cache_entry src ce st)) = outputFileSystem (self st)"
  "outputPath (self (set_cache_entry src ce st)) = outputPath (self st)"
  "running (self (set_cache_entry src ce st)) = running (self st)"
  by (simp_all add: set_cache_entry_def)

lemma self_new_source [simp]:
  "self (new_source b st) = self st" "trace (new_source b st) = trace st"
  "heap (new_source b st) = heap st"
  "sources (new_source b st) = sources st @ [\<lparr>body = b, existsAt = None, emitted = None\<rparr>]"
  by (simp_all add: new_source_def)

lemma self_set_source [simp]:
  "self (set_source src s st) = self st" "trace (set_source src s st) = trace st"
  "heap (set_source src s st) = heap st"
  "sources (set_source src s st) = (sources st)[src := s]"
  by (simp_all add: set_source_def)

lemma cache_entry_of_set [simp]:
  "cache_entry_of (self (set_cache_entry src ce st)) src' =
     (if src' = src then ce else cache_entry_of (self st) src')"
  by (simp add: cache_entry_of_def map_of_set_assoc)

lemma complete_PWrite_ok:
  assumes "fs_writeFile w p content n = None"
      and "complete w n outPath (PWrite f s p g content) (st, cpl) = (r, st', cpl')"
  shows "r = Finished None" "assets cpl' = assets cpl" "sources st' = sources st"
    "trace st' = trace st"
    "generation (self st') p = Some (case g of None \<Rightarrow> 1 | Some k \<Rightarrow> k + 1)"
    "written_generation (self st') s p = Some (case g of None \<Rightarrow> 1 | Some k \<Rightarrow> k + 1)"
  using assms
  by (auto simp: complete_def Let_def generation_def written_generation_def
        map_of_set_assoc cache_entry_of_def set_cache_entry_def)

lemma complete_PWrite_failed:
  assumes "fs_writeFile w p content n = Some e"
      and "complete w n outPath (PWrite f s p g content) (st, cpl) = (r, st', cpl')"
  shows "r = Finished (Some e)" "st' = st" "cpl' = cpl"
  using assms by (auto simp: complete_def)

text \<open>
  Claim C9. \<^verbatim>\<open>writeOut\<close> in caching mode issues the write of \<open>content\<close> for the asset
  \<open>fnm\<close> and leaves the state \<open>st1\<close> and the compilation \<open>cpl1\<close>. The callback of the write
  runs later, on a state \<open>st1'\<close> and a compilation \<open>cpl1'\<close>: the other emissions in flight
  have run in between, and they add objects to the store and leave the entry of \<open>fnm\<close>
  alone. When the file system reports success, the asset mapping holds for \<open>fnm\<close> a new
  object of the store that is a SizeOnlySource; its \<^verbatim>\<open>size()\<close> is the number of bytes
  written, and each of \<^verbatim>\<open>source()\<close>, \<^verbatim>\<open>map()\<close>, \<^verbatim>\<open>node()\<close>, \<^verbatim>\<open>listMap()\<close>,
  \<^verbatim>\<open>listNode()\<close> and \<^verbatim>\<open>updateHash()\<close> throws.
\<close>

theorem caching_write_leaves_SizeOnlySource:
  assumes issue: "writeOut w outPath fnm src targetFile (st, cpl) =
                    (Pending (PWrite f s p g content), st1, cpl1)"
      and between: "sources_extend (sources st1) (sources st1')"
                   "map_of (assets cpl1') fnm = map_of (assets cpl1) fnm"
      and ok: "fs_writeFile w p content n = None"
      and fin: "complete w n outPath (PWrite f s p g content) (st1', cpl1') = (r, st2, cpl2)"
  shows "r = Finished None
         \<and> last (trace st1) = WriteFile p content
         \<and> (\<exists>sid. map_of (assets cpl2) fnm = Some sid \<and> sid < length (sources st2)
               \<and> src \<noteq> sid
               \<and> (\<exists>sz. body (sources st2 ! sid) = SizeOnlySource sz
                      \<and> SizeOnlySource_size sz = length content
                      \<and> (\<forall>a. SizeOnlySource_call a sz = Inl SizeOnlySource_error)))"
proof -
  note facts = writeOut_pending_caching [OF issue]
  have w: "writeOut w outPath fnm src targetFile (st, cpl) =
           (Pending (PWrite fnm src (fs_join w outPath targetFile)
                       (map_of (assetEmittingWrittenFiles (self st)) (fs_join w outPath targetFile))
                       content),
            log (WriteFile (fs_join w outPath targetFile) content)
              (set_cache_entry src
                 ((cache_entry_of (self st) src)\<lparr>sizeOnlySource := Some (length (sources st))\<rparr>)
                 (new_source (SizeOnlySource (length content))
                    (set_cache_entry src (cache_entry_of (self st) src) st))),
            cpl\<lparr>assets := set_assoc fnm (length (sources st)) (assets cpl)\<rparr>)"
    using facts by (intro writeOut_caching_write) auto
  from issue w have st1: "st1 = log (WriteFile (fs_join w outPath targetFile) content)
              (set_cache_entry src
                 ((cache_entry_of (self st) src)\<lparr>sizeOnlySource := Some (length (sources st))\<rparr>)
                 (new_source (SizeOnlySource (length content))
                    (set_cache_entry src (cache_entry_of (self st) src) st)))"
    and cpl1: "cpl1 = cpl\<lparr>assets := set_assoc fnm (length (sources st)) (assets cpl)\<rparr>"
    by auto
  have p: "p = fs_join w outPath targetFile" using facts by simp
  note fin' = complete_PWrite_ok [OF ok fin]
  have acc: "SizeOnlySource_call a sz = Inl SizeOnlySource_error" for a sz
    by (cases a) simp_all
  have len1: "length (sources st) < length (sources st1)" by (simp add: st1)
  have b1: "body (sources st1 ! length (sources st)) = SizeOnlySource (length content)"
    by (simp add: st1)
  have "map_of (assets cpl2) fnm = Some (length (sources st))"
    by (simp add: fin'(2) between(2) cpl1 map_of_set_assoc)
  moreover have "length (sources st) < length (sources st2)"
    using len1 between(1) by (simp add: fin'(3) sources_extend_def)
  moreover have "src \<noteq> length (sources st)" using facts by simp
  moreover have "body (sources st2 ! length (sources st)) = SizeOnlySource (length content)"
    using len1 between(1) b1 by (simp add: fin'(3) sources_extend_def)
  ultimately show ?thesis
    using fin'(1) acc by (simp add: st1 p SizeOnlySource_size_def)
qed

lemma demo_state_simps:
  "futureEmitAssets (self demo_state) = Inr True"
  "sources demo_state = [demo_source, demo_source]"
  "assetEmittingWrittenFiles (self demo_state) = []"
  "assetEmittingSourceCache (self demo_state) = []"
  "trace demo_state = []"
  by (simp_all add: demo_state_def demo_compiler_def futureEmitAssets_def new_Compiler_def
        alloc_def)

lemma demo_content: "caching_content demo_world demo_source = Inr [97, 98, 99]"
  by (simp add: caching_content_def demo_source_def source_source_def to_buffer_def
        demo_world_def)

lemma demo_writeOut_any:
  assumes "futureEmitAssets (self st) = Inr True" "assetEmittingWrittenFiles (self st) = []"
    "src < length (sources st)" "sources st ! src = demo_source"
  shows "writeOut demo_world ''/out'' fnm src tf (st, c) =
     (Pending (PWrite fnm src (''/out/'' @ tf) None [97, 98, 99]),
      log (WriteFile (''/out/'' @ tf) [97, 98, 99])
        (set_cache_entry src
           ((cache_entry_of (self st) src)\<lparr>sizeOnlySource := Some (length (sources st))\<rparr>)
           (new_source (SizeOnlySource 3)
              (set_cache_entry src (cache_entry_of (self st) src) st))),
      c\<lparr>assets := set_assoc fnm (length (sources st)) (assets c)\<rparr>)"
proof -
  have j: "fs_join demo_world ''/out'' tf = ''/out/'' @ tf" by (simp add: demo_world_def)
  show ?thesis
    by (subst writeOut_caching_write [where content = "[97, 98, 99]"])
       (simp_all add: assms j demo_content numeral_3_eq_3)
qed

text \<open>
  Two writes in flight: \<^verbatim>\<open>a.js\<close> is issued from the state \<open>demo_state\<close>, then
  \<^verbatim>\<open>b.js\<close> from the state that leaves.
\<close>

lemma demo_two_in_flight:
  obtains stA cplA stB cplB where
    "writeOut demo_world ''/out'' ''a.js'' 0 ''a.js''
       (demo_state, demo_compilation [(''a.js'', 0), (''b.js'', 1)]) =
         (Pending (PWrite ''a.js'' 0 ''/out/a.js'' None [97, 98, 99]), stA, cplA)"
    "writeOut demo_world ''/out'' ''b.js'' 1 ''b.js'' (stA, cplA) =
         (Pending (PWrite ''b.js'' 1 ''/out/b.js'' None [97, 98, 99]), stB, cplB)"
    "sources stA = [demo_source, demo_source,
                    \<lparr>body = SizeOnlySource 3, existsAt = None, emitted = None\<rparr>]"
    "sources stB = sources stA @ [\<lparr>body = SizeOnlySource 3, existsAt = None, emitted = None\<rparr>]"
    "assets cplA = [(''a.js'', 2), (''b.js'', 1)]"
    "assets cplB = [(''a.js'', 2), (''b.js'', 3)]"
    "assetEmittingWrittenFiles (self stB) = []"
    "assetEmittingSourceCache (self stB) =
       [(0, new_cache_entry\<lparr>sizeOnlySource := Some 2\<rparr>),
        (1, new_cache_entry\<lparr>sizeOnlySource := Some 3\<rparr>)]"
proof -
  define stA where "stA = log (WriteFile ''/out/a.js'' [97, 98, 99])
        (set_cache_entry 0
           ((cache_entry_of (self demo_state) 0)\<lparr>sizeOnlySource := Some (length (sources demo_state))\<rparr>)
           (new_source (SizeOnlySource 3)
              (set_cache_entry 0 (cache_entry_of (self demo_state) 0) demo_state)))"
  define cplA where "cplA = (demo_compilation [(''a.js'', 0), (''b.js'', 1)])
        \<lparr>assets := set_assoc ''a.js'' (length (sources demo_state))
                     (assets (demo_compilation [(''a.js'', 0), (''b.js'', 1)]))\<rparr>"
  define stB where "stB = log (WriteFile ''/out/b.js'' [97, 98, 99])
        (set_cache_entry 1
           ((cache_entry_of (self stA) 1)\<lparr>sizeOnlySource := Some (length (sources stA))\<rparr>)
           (new_source (SizeOnlySource 3)
              (set_cache_entry 1 (cache_entry_of (self stA) 1) stA)))"
  define cplB where "cplB = cplA\<lparr>assets := set_assoc ''b.js'' (length (sources stA)) (assets cplA)\<rparr>"
  have a: "writeOut demo_world ''/out'' ''a.js'' 0 ''a.js''
       (demo_state, demo_compilation [(''a.js'', 0), (''b.js'', 1)]) =
         (Pending (PWrite ''a.js'' 0 ''/out/a.js'' None [97, 98, 99]), stA, cplA)"
    unfolding stA_def cplA_def
    using demo_writeOut_any [of demo_state 0 "''a.js''" "''a.js''"]
    by (simp add: demo_state_simps)
  have sA: "sources stA = [demo_source, demo_source,
                    \<lparr>body = SizeOnlySource 3, existsAt = None, emitted = None\<rparr>]"
    by (simp add: stA_def demo_state_simps)
  have fA: "futureEmitAssets (self stA) = Inr True"
    using demo_state_simps(1) by (simp add: stA_def futureEmitAssets_def)
  have wA: "assetEmittingWrittenFiles (self stA) = []"
    by (simp add: stA_def demo_state_simps)
  have cA: "assetEmittingSourceCache (self stA) = [(0, new_cache_entry\<lparr>sizeOnlySource := Some 2\<rparr>)]"
    by (simp add: stA_def demo_state_simps cache_entry_of_def)
  have b: "writeOut demo_world ''/out'' ''b.js'' 1 ''b.js'' (stA, cplA) =
         (Pending (PWrite ''b.js'' 1 ''/out/b.js'' None [97, 98, 99]), stB, cplB)"
    unfolding stB_def cplB_def
    using demo_writeOut_any [of stA 1 "''b.js''" "''b.js''" cplA]
    by (simp add: fA wA sA)
  have sB: "sources stB = sources stA @ [\<lparr>body = SizeOnlySource 3, existsAt = None, emitted = None\<rparr>]"
    by (simp add: stB_def)
  have aA: "assets cplA = [(''a.js'', 2), (''b.js'', 1)]"
    by (simp add: cplA_def demo_compilation_def demo_state_simps)
  have aB: "assets cplB = [(''a.js'', 2), (''b.js'', 3)]"
    by (simp add: cplB_def aA sA)
  have wB: "assetEmittingWrittenFiles (self stB) = []" by (simp add: stB_def wA)
  have cB: "assetEmittingSourceCache (self stB) =
       [(0, new_cache_entry\<lparr>sizeOnlySource := Some 2\<rparr>),
        (1, new_cache_entry\<lparr>sizeOnlySource := Some 3\<rparr>)]"
    by (simp add: stB_def cA sA cache_entry_of_def)
  show ?thesis using that [OF a b sA sB aA aB wB cB] .
qed

text \<open>
  Claim C9 with two writes in flight: the callback of \<^verbatim>\<open>a.js\<close> runs after the write
  of \<^verbatim>\<open>b.js\<close> has been issued too, on a state and a compilation that are no longer
  those its own \<^verbatim>\<open>writeOut\<close> left.
\<close>

theorem caching_write_leaves_SizeOnlySource_witness:
  "(case writeOut demo_world ''/out'' ''a.js'' 0 ''a.js''
           (demo_state, demo_compilation [(''a.js'', 0), (''b.js'', 1)]) of
      (Pending p, st1, cpl1) \<Rightarrow>
        (case writeOut demo_world ''/out'' ''b.js'' 1 ''b.js'' (st1, cpl1) of
           (Pending q, st1', cpl1') \<Rightarrow>
             p = PWrite ''a.js'' 0 ''/out/a.js'' None [97, 98, 99]
             \<and> sources st1' \<noteq> sources st1 \<and> assets cpl1' \<noteq> assets cpl1
             \<and> sources_extend (sources st1) (sources st1')
             \<and> map_of (assets cpl1') ''a.js'' = map_of (assets cpl1) ''a.js''
             \<and> fs_writeFile demo_world ''/out/a.js'' [97, 98, 99] 0 = None
             \<and> (case complete demo_world 0 ''/out'' p (st1', cpl1') of
                   (r, st2, cpl2) \<Rightarrow>
                     r = Finished None
                     \<and> (\<exists>sid sz. map_of (assets cpl2) ''a.js'' = Some sid
                           \<and> body (sources st2 ! sid) = SizeOnlySource sz
                           \<and> SizeOnlySource_size sz = 3
                           \<and> SizeOnlySource_call Acc_source sz = Inl SizeOnlySource_error))
         | (r, st1', cpl1') \<Rightarrow> False)
    | (r, st1, cpl1) \<Rightarrow> False)"
proof -
  obtain stA cplA stB cplB where
    a: "writeOut demo_world ''/out'' ''a.js'' 0 ''a.js''
       (demo_state, demo_compilation [(''a.js'', 0), (''b.js'', 1)]) =
         (Pending (PWrite ''a.js'' 0 ''/out/a.js'' None [97, 98, 99]), stA, cplA)"
    and b: "writeOut demo_world ''/out'' ''b.js'' 1 ''b.js'' (stA, cplA) =
         (Pending (PWrite ''b.js'' 1 ''/out/b.js'' None [97, 98, 99]), stB, cplB)"
    and sA: "sources stA = [demo_source, demo_source,
                    \<lparr>body = SizeOnlySource 3, existsAt = None, emitted = None\<rparr>]"
    and sB: "sources stB = sources stA @ [\<lparr>body = SizeOnlySource 3, existsAt = None, emitted = None\<rparr>]"
    and aA: "assets cplA = [(''a.js'', 2), (''b.js'', 1)]"
    and aB: "assets cplB = [(''a.js'', 2), (''b.js'', 3)]"
    by (rule demo_two_in_flight)
  have ok: "fs_writeFile demo_world ''/out/a.js'' [97, 98, 99] 0 = None"
    by (simp add: demo_world_def)
  have ext: "sources_extend (sources stA) (sources stB)"
    by (simp add: sB sources_extend_def nth_append)
  have same: "map_of (assets cplB) ''a.js'' = map_of (assets cplA) ''a.js''"
    by (simp add: aA aB)
  obtain r st2 cpl2 where
    c: "complete demo_world 0 ''/out'' (PWrite ''a.js'' 0 ''/out/a.js'' None [97, 98, 99])
          (stB, cplB) = (r, st2, cpl2)"
    by (metis prod_cases3)
  have ne: "sources stB \<noteq> sources stA" "assets cplB \<noteq> assets cplA"
    by (simp_all add: sB aA aB)
  from caching_write_leaves_SizeOnlySource [OF a ext same ok c]
  show ?thesis unfolding a b prod.case step.case by (auto simp: ok c ext same ne)
qed

subsection \<open>The asset mapping and the generations around a caching-mode write\<close>

text \<open>
  Claim C10. In caching mode, at the moment \<^verbatim>\<open>writeFile\<close> is issued the asset mapping
  already holds the size-only stand-in for the file name, and not the original content
  object, while both generation counters are still what they were. The callback of the
  write runs later, on a state \<open>st1'\<close> and a compilation \<open>cpl1'\<close> that the other emissions
  in flight have changed in between; they leave the entry of the file name alone. If the
  write has failed, the callback reports the error and changes nothing at all: the
  original object stays out of the mapping and the callback moves no counter. If the
  write has succeeded, both counters become the generation read before the write plus
  one, or 1 where there was none.
\<close>

theorem caching_write_not_atomic:
  assumes issue: "writeOut w outPath fnm src targetFile (st, cpl) =
                    (Pending (PWrite f s p g content), st1, cpl1)"
      and between: "map_of (assets cpl1') fnm = map_of (assets cpl1) fnm"
      and fin: "complete w n outPath (PWrite f s p g content) (st1', cpl1') = (r, st2, cpl2)"
  shows "last (trace st1) = WriteFile p content
         \<and> (\<exists>sid. map_of (assets cpl1) fnm = Some sid \<and> sid \<noteq> src
               \<and> body (sources st1 ! sid) = SizeOnlySource (length content)
               \<and> map_of (assets cpl2) fnm = Some sid)
         \<and> generation (self st1) p = generation (self st) p
         \<and> written_generation (self st1) src p = written_generation (self st) src p
         \<and> g = generation (self st) p
         \<and> (case fs_writeFile w p content n of
               Some e \<Rightarrow> r = Finished (Some e) \<and> st2 = st1' \<and> cpl2 = cpl1'
             | None \<Rightarrow>
                 r = Finished None \<and> assets cpl2 = assets cpl1'
                 \<and> generation (self st2) p = Some (case g of None \<Rightarrow> 1 | Some k \<Rightarrow> k + 1)
                 \<and> written_generation (self st2) src p =
                     Some (case g of None \<Rightarrow> 1 | Some k \<Rightarrow> k + 1))"
proof -
  note facts = writeOut_pending_caching [OF issue]
  have w: "writeOut w outPath fnm src targetFile (st, cpl) =
           (Pending (PWrite fnm src (fs_join w outPath targetFile)
                       (map_of (assetEmittingWrittenFiles (self st)) (fs_join w outPath targetFile))
                       content),
            log (WriteFile (fs_join w outPath targetFile) content)
              (set_cache_entry src
                 ((cache_entry_of (self st) src)\<lparr>sizeOnlySource := Some (length (sources st))\<rparr>)
                 (new_source (SizeOnlySource (length content))
                    (set_cache_entry src (cache_entry_of (self st) src) st))),
            cpl\<lparr>assets := set_assoc fnm (length (sources st)) (assets cpl)\<rparr>)"
    using facts by (intro writeOut_caching_write) auto
  from issue w have st1: "st1 = log (WriteFile (fs_join w outPath targetFile) content)
              (set_cache_entry src
                 ((cache_entry_of (self st) src)\<lparr>sizeOnlySource := Some (length (sources st))\<rparr>)
                 (new_source (SizeOnlySource (length content))
                    (set_cache_entry src (cache_entry_of (self st) src) st)))"
    and cpl1: "cpl1 = cpl\<lparr>assets := set_assoc fnm (length (sources st)) (assets cpl)\<rparr>"
    by auto
  have p: "p = fs_join w outPath targetFile" and s: "s = src" and f: "f = fnm"
    and g: "g = generation (self st) p"
    using facts by (simp_all add: generation_def)
  have a: "last (trace st1) = WriteFile p content" by (simp add: st1 p)
  have b: "map_of (assets cpl1) fnm = Some (length (sources st))"
    "length (sources st) \<noteq> src"
    "body (sources st1 ! length (sources st)) = SizeOnlySource (length content)"
    using facts by (simp_all add: cpl1 st1 map_of_set_assoc)
  have c: "generation (self st1) p = generation (self st) p"
    "written_generation (self st1) src p = written_generation (self st) src p"
    by (simp_all add: st1 generation_def written_generation_def)
  have d: "(case fs_writeFile w p content n of
               Some e \<Rightarrow> r = Finished (Some e) \<and> st2 = st1' \<and> cpl2 = cpl1'
             | None \<Rightarrow>
                 r = Finished None \<and> assets cpl2 = assets cpl1'
                 \<and> generation (self st2) p = Some (case g of None \<Rightarrow> 1 | Some k \<Rightarrow> k + 1)
                 \<and> written_generation (self st2) src p =
                     Some (case g of None \<Rightarrow> 1 | Some k \<Rightarrow> k + 1))
           \<and> assets cpl2 = assets cpl1'"
  proof (cases "fs_writeFile w p content n")
    case None
    show ?thesis using complete_PWrite_ok [OF None fin] by (simp add: None s)
  next
    case (Some e)
    show ?thesis using complete_PWrite_failed [OF Some fin] by (simp add: Some)
  qed
  have e: "map_of (assets cpl2) fnm = Some (length (sources st))"
    using d between b(1) by simp
  show ?thesis using a b c d e g by blast
qed

text \<open>
  Claim C10 where the write fails, with two writes in flight: the callback of
  \<^verbatim>\<open>bad.js\<close> runs after the write of \<^verbatim>\<open>b.js\<close> has been issued. The mapping holds the
  stand-in (object 2) instead of the content (object 0), and the path has no generation.
\<close>

theorem caching_write_not_atomic_witness:
  "(case writeOut demo_world ''/out'' ''bad.js'' 0 ''bad.js''
           (demo_state, demo_compilation [(''bad.js'', 0), (''b.js'', 1)]) of
      (Pending p, st1, cpl1) \<Rightarrow>
        (case writeOut demo_world ''/out'' ''b.js'' 1 ''b.js'' (st1, cpl1) of
           (Pending q, st1', cpl1') \<Rightarrow>
             p = PWrite ''bad.js'' 0 ''/out/bad.js'' None [97, 98, 99]
             \<and> sources st1' \<noteq> sources st1 \<and> assets cpl1' \<noteq> assets cpl1
             \<and> map_of (assets cpl1') ''bad.js'' = map_of (assets cpl1) ''bad.js''
             \<and> (case complete demo_world 0 ''/out'' p (st1', cpl1') of
                   (r, st2, cpl2) \<Rightarrow>
                     r = Finished (Some (Error ''EACCES''))
                     \<and> map_of (assets cpl2) ''bad.js'' = Some 2
                     \<and> body (sources st2 ! 2) = SizeOnlySource 3
                     \<and> generation (self st2) ''/out/bad.js'' = None
                     \<and> written_generation (self st2) 0 ''/out/bad.js'' = None)
         | (r, st1', cpl1') \<Rightarrow> False)
    | (r, st1, cpl1) \<Rightarrow> False)"
proof -
  define stA where "stA = log (WriteFile ''/out/bad.js'' [97, 98, 99])
        (set_cache_entry 0
           ((cache_entry_of (self demo_state) 0)\<lparr>sizeOnlySource := Some (length (sources demo_state))\<rparr>)
           (new_source (SizeOnlySource 3)
              (set_cache_entry 0 (cache_entry_of (self demo_state) 0) demo_state)))"
  define cplA where "cplA = (demo_compilation [(''bad.js'', 0), (''b.js'', 1)])
        \<lparr>assets := set_assoc ''bad.js'' (length (sources demo_state))
                     (assets (demo_compilation [(''bad.js'', 0), (''b.js'', 1)]))\<rparr>"
  define stB where "stB = log (WriteFile ''/out/b.js'' [97, 98, 99])
        (set_cache_entry 1
           ((cache_entry_of (self stA) 1)\<lparr>sizeOnlySource := Some (length (sources stA))\<rparr>)
           (new_source (SizeOnlySource 3)
              (set_cache_entry 1 (cache_entry_of (self stA) 1) stA)))"
  define cplB where "cplB = cplA\<lparr>assets := set_assoc ''b.js'' (length (sources stA)) (assets cplA)\<rparr>"
  have a: "writeOut demo_world ''/out'' ''bad.js'' 0 ''bad.js''
       (demo_state, demo_compilation [(''bad.js'', 0), (''b.js'', 1)]) =
         (Pending (PWrite ''bad.js'' 0 ''/out/bad.js'' None [97, 98, 99]), stA, cplA)"
    unfolding stA_def cplA_def
    using demo_writeOut_any [of demo_state 0 "''bad.js''" "''bad.js''"]
    by (simp add: demo_state_simps)
  have sA: "sources stA = [demo_source, demo_source,
                    \<lparr>body = SizeOnlySource 3, existsAt = None, emitted = None\<rparr>]"
    by (simp add: stA_def demo_state_simps)
  have fA: "futureEmitAssets (self stA) = Inr True"
    using demo_state_simps(1) by (simp add: stA_def futureEmitAssets_def)
  have wA: "assetEmittingWrittenFiles (self stA) = []"
    by (simp add: stA_def demo_state_simps)
  have cA: "assetEmittingSourceCache (self stA) = [(0, new_cache_entry\<lparr>sizeOnlySource := Some 2\<rparr>)]"
    by (simp add: stA_def demo_state_simps cache_entry_of_def)
  have b: "writeOut demo_world ''/out'' ''b.js'' 1 ''b.js'' (stA, cplA) =
         (Pending (PWrite ''b.js'' 1 ''/out/b.js'' None [97, 98, 99]), stB, cplB)"
    unfolding stB_def cplB_def
    using demo_writeOut_any [of stA 1 "''b.js''" "''b.js''" cplA]
    by (simp add: fA wA sA)
  have sB: "sources stB = sources stA @ [\<lparr>body = SizeOnlySource 3, existsAt = None, emitted = None\<rparr>]"
    by (simp add: stB_def)
  have aA: "assets cplA = [(''bad.js'', 2), (''b.js'', 1)]"
    by (simp add: cplA_def demo_compilation_def demo_state_simps)
  have aB: "assets cplB = [(''bad.js'', 2), (''b.js'', 3)]"
    by (simp add: cplB_def aA sA)
  have wB: "assetEmittingWrittenFiles (self stB) = []" by (simp add: stB_def wA)
  have cB: "assetEmittingSourceCache (self stB) =
       [(0, new_cache_entry\<lparr>sizeOnlySource := Some 2\<rparr>),
        (1, new_cache_entry\<lparr>sizeOnlySource := Some 3\<rparr>)]"
    by (simp add: stB_def cA sA cache_entry_of_def)
  have bad: "fs_writeFile demo_world ''/out/bad.js'' [97, 98, 99] 0 = Some (Error ''EACCES'')"
    by (simp add: demo_world_def)
  have same: "map_of (assets cplB) ''bad.js'' = map_of (assets cplA) ''bad.js''"
    by (simp add: aA aB)
  have g0: "generation (self stB) ''/out/bad.js'' = None"
    "written_generation (self stB) 0 ''/out/bad.js'' = None"
    by (simp_all add: generation_def written_generation_def cache_entry_of_def wB cB
          new_cache_entry_def)
  obtain r st2 cpl2 where
    c: "complete demo_world 0 ''/out'' (PWrite ''bad.js'' 0 ''/out/bad.js'' None [97, 98, 99])
          (stB, cplB) = (r, st2, cpl2)"
    by (metis prod_cases3)
  have ne: "sources stB \<noteq> sources stA" "assets cplB \<noteq> assets cplA"
    by (simp_all add: sB aA aB)
  have b2: "body (sources stB ! 2) = SizeOnlySource 3" by (simp add: sB sA)
  have m: "map_of (assets cplA) ''bad.js'' = Some 2" "map_of (assets cplB) ''bad.js'' = Some 2"
    by (simp_all add: aA aB)
  from caching_write_not_atomic [OF a same c]
  show ?thesis unfolding a b prod.case step.case by (auto simp: bad c g0 ne m b2)
qed


subsection \<open>Reading the records\<close>

lemma since_touched: "touched st st' evs \<Longrightarrow> since st st' = evs"
  by (simp add: since_def touched_def)

lemma taps_no_enter: "list_all is_tap evs \<Longrightarrow> filter (is_enter nm) evs = []"
  by (induction evs) (auto elim: is_tap.elims)

lemma taps_no_hook: "list_all is_tap evs \<Longrightarrow> filter (is_hook h) evs = []"
  by (induction evs) (auto elim: is_tap.elims)

lemma taps_no_write: "list_all is_tap evs \<Longrightarrow> filter (is_write p) evs = []"
  by (induction evs) (auto elim: is_tap.elims)

lemma readRecords_unset:
  assumes "recordsInputPath (self st) = None"
  shows "readRecords w n st =
           (Ok (), set_records (JRef (length (heap st))) (heap st @ [empty_object])
                     (log (Enter ''readRecords'') st))"
  using assms by (simp add: readRecords_def alloc_def)

lemma readRecords_missing:
  assumes "recordsInputPath (self st) = Some p" "p \<noteq> []" "inputFileSystem (self st) \<noteq> None"
      and "fs_stat w p n = Some e"
  shows "readRecords w n st = (Ok (), log (Stat p) (log (Enter ''readRecords'') st))"
  using assms by (auto simp: readRecords_def)

lemma readRecords_malformed:
  assumes "recordsInputPath (self st) = Some p" "p \<noteq> []" "inputFileSystem (self st) \<noteq> None"
      and "fs_stat w p n = None" "fs_readFile w p n = Inr content"
      and "parseJson w (utf8_decode w content) = Inl msg"
  shows "readRecords w n st =
           (Fail (Error (''Cannot parse records: '' @ msg)),
            log (ReadFile p) (log (Stat p) (log (Enter ''readRecords'') st)))"
  using assms by (auto simp: readRecords_def)

text \<open>A failure of \<^verbatim>\<open>readRecords\<close> ends the run before any compile cycle.\<close>

lemma run_readRecords_fails:
  assumes nr: "\<not> running (self st)" and hh: "has_hooks (self st)" and ok: "taps_ok w 0"
      and rr: "\<And>s. self s = (self st)\<lparr>running := True\<rparr> \<Longrightarrow> heap s = heap st \<Longrightarrow>
                 \<exists>evs. readRecords w 0 s = (Fail e, s\<lparr>trace := trace s @ evs\<rparr>)
                       \<and> filter (is_enter ''compile'') evs = []"
  shows "\<exists>st'. run fuel w st = Some (Callback (Some e) None, st')
           \<and> count_ev (is_enter ''compile'') (since st st') = 0
           \<and> \<not> running (self st')"
proof -
  let ?st1 = "st\<lparr>self := (self st)\<lparr>running := True\<rparr>\<rparr>"
  have h1: "map_of (hooks (self ?st1)) ''beforeRun'' \<noteq> None"
    using has_hooksD [OF hh std_hook_names(3)] by simp
  obtain ev1 st2 where s2: "callAsync w 0 ''beforeRun'' ?st1 = (Ok (), st2)"
    and t2: "touched ?st1 st2 (HookCall ''beforeRun'' 0 # ev1)" and l1: "list_all is_tap ev1"
    by (rule callAsync_step [OF h1 ok])
  have self2: "self st2 = (self st)\<lparr>running := True\<rparr>" "heap st2 = heap st"
    using touched_fields [OF t2] by simp_all
  have h2: "map_of (hooks (self st2)) ''run'' \<noteq> None"
    using has_hooksD [OF hh std_hook_names(4)] by (simp add: self2)
  obtain ev2 st3 where s3: "callAsync w 0 ''run'' st2 = (Ok (), st3)"
    and t3: "touched st2 st3 (HookCall ''run'' 0 # ev2)" and l2: "list_all is_tap ev2"
    by (rule callAsync_step [OF h2 ok])
  have self3: "self st3 = (self st)\<lparr>running := True\<rparr>" "heap st3 = heap st"
    using touched_fields [OF t3] self2 by simp_all
  obtain ev3 where s4: "readRecords w 0 st3 = (Fail e, st3\<lparr>trace := trace st3 @ ev3\<rparr>)"
    and l3: "filter (is_enter ''compile'') ev3 = []"
    using rr [OF self3] by blast
  let ?st4 = "st3\<lparr>trace := trace st3 @ ev3\<rparr>"
  let ?st5 = "?st4\<lparr>self := (self ?st4)\<lparr>running := False\<rparr>\<rparr>"
  have h5: "map_of (hooks (self ?st5)) ''failed'' \<noteq> None"
    using has_hooksD [OF hh std_hook_names(16)] by (simp add: self3)
  obtain v ev5 st6 where s6: "call w 0 ''failed'' ?st5 = (Ok v, st6)"
    and t6: "touched ?st5 st6 (HookCall ''failed'' 0 # ev5)" and l5: "list_all is_tap ev5"
    by (rule call_step [OF h5 ok])
  have pipe: "andThen (callAsync w 0 ''beforeRun'' ?st1)
                (\<lambda>u st. andThen (callAsync w 0 ''run'' st) (\<lambda>u st. readRecords w 0 st))
              = (Fail e, ?st4)"
    by (simp add: andThen_def s2 s3 s4)
  have res: "run fuel w st = Some (Callback (Some e) None, st6)"
    using nr s6 by (simp add: run_def pipe finalCallback_def Let_def)
  have tr: "trace st6 = trace st @ (HookCall ''beforeRun'' 0 # ev1) @ (HookCall ''run'' 0 # ev2)
                          @ ev3 @ (HookCall ''failed'' 0 # ev5)"
    using touched_fields(4) [OF t6] touched_fields(4) [OF t3] touched_fields(4) [OF t2]
    by simp
  have cnt: "count_ev (is_enter ''compile'') (since st st6) = 0"
    using l1 l2 l3 l5 by (simp add: since_def tr count_ev_def taps_no_enter)
  have "\<not> running (self st6)" using touched_fields(1) [OF t6] by simp
  with res cnt show ?thesis by blast
qed

text \<open>
  Claim C5. Without a configured input path, \<^verbatim>\<open>readRecords\<close> completes without error
  and leaves a new empty object as the records. With a path whose \<^verbatim>\<open>stat\<close> fails it
  completes without error and leaves the records as they are, which on a first build is
  the empty object of the constructor. With a file that is there but does not parse it
  fails with the parse error, prefixed; that error ends \<^verbatim>\<open>run\<close> before any compile
  cycle, with the error as the callback's argument.
\<close>

theorem readRecords_outcomes:
  "(recordsInputPath (self st) = None \<longrightarrow>
      (\<exists>a st'. readRecords w n st = (Ok (), st') \<and> records (self st') = JRef a
               \<and> deref (heap st') a = Some empty_object))
   \<and> (recordsInputPath (self st) = Some p \<and> p \<noteq> [] \<and> inputFileSystem (self st) \<noteq> None
        \<and> fs_stat w p n = Some e
        \<and> records (self st) = JRef a0 \<and> deref (heap st) a0 = Some empty_object \<longrightarrow>
      (\<exists>st'. readRecords w n st = (Ok (), st') \<and> records (self st') = JRef a0
             \<and> deref (heap st') a0 = Some empty_object))
   \<and> (recordsInputPath (self st) = Some p \<and> p \<noteq> [] \<and> inputFileSystem (self st) \<noteq> None
        \<and> fs_stat w p 0 = None \<and> fs_readFile w p 0 = Inr content
        \<and> parseJson w (utf8_decode w content) = Inl msg \<longrightarrow>
      fst (readRecords w 0 st) = Fail (Error (''Cannot parse records: '' @ msg))
      \<and> (\<not> running (self st) \<and> has_hooks (self st) \<and> taps_ok w 0 \<longrightarrow>
           (\<exists>st'. run fuel w st =
                     Some (Callback (Some (Error (''Cannot parse records: '' @ msg))) None, st')
                  \<and> count_ev (is_enter ''compile'') (since st st') = 0
                  \<and> \<not> running (self st'))))"
proof (intro conjI impI)
  assume "recordsInputPath (self st) = None"
  then show "\<exists>a st'. readRecords w n st = (Ok (), st') \<and> records (self st') = JRef a
               \<and> deref (heap st') a = Some empty_object"
    by (simp add: readRecords_unset set_records_def deref_def)
next
  assume a: "recordsInputPath (self st) = Some p \<and> p \<noteq> [] \<and> inputFileSystem (self st) \<noteq> None
        \<and> fs_stat w p n = Some e
        \<and> records (self st) = JRef a0 \<and> deref (heap st) a0 = Some empty_object"
  then have "readRecords w n st = (Ok (), log (Stat p) (log (Enter ''readRecords'') st))"
    by (intro readRecords_missing) auto
  with a show "\<exists>st'. readRecords w n st = (Ok (), st') \<and> records (self st') = JRef a0
             \<and> deref (heap st') a0 = Some empty_object"
    by simp
next
  assume a: "recordsInputPath (self st) = Some p \<and> p \<noteq> [] \<and> inputFileSystem (self st) \<noteq> None
        \<and> fs_stat w p 0 = None \<and> fs_readFile w p 0 = Inr content
        \<and> parseJson w (utf8_decode w content) = Inl msg"
  then show "fst (readRecords w 0 st) = Fail (Error (''Cannot parse records: '' @ msg))"
    by (subst readRecords_malformed [where p = p and content = content and msg = msg]) auto
next
  assume a: "recordsInputPath (self st) = Some p \<and> p \<noteq> [] \<and> inputFileSystem (self st) \<noteq> None
        \<and> fs_stat w p 0 = None \<and> fs_readFile w p 0 = Inr content
        \<and> parseJson w (utf8_decode w content) = Inl msg"
    and b: "\<not> running (self st) \<and> has_hooks (self st) \<and> taps_ok w 0"
  have rr: "\<exists>evs. readRecords w 0 s =
                    (Fail (Error (''Cannot parse records: '' @ msg)), s\<lparr>trace := trace s @ evs\<rparr>)
                  \<and> filter (is_enter ''compile'') evs = []"
    if "self s = (self st)\<lparr>running := True\<rparr>" "heap s = heap st" for s
  proof -
    have "readRecords w 0 s =
           (Fail (Error (''Cannot parse records: '' @ msg)),
            log (ReadFile p) (log (Stat p) (log (Enter ''readRecords'') s)))"
      using a that
      by (intro readRecords_malformed [where p = p and content = content and msg = msg]) auto
    then show ?thesis
      by (intro exI [of _ "[Enter ''readRecords'', Stat p, ReadFile p]"]) (simp add: log_def)
  qed
  show "\<exists>st'. run fuel w st =
                 Some (Callback (Some (Error (''Cannot parse records: '' @ msg))) None, st')
              \<and> count_ev (is_enter ''compile'') (since st st') = 0
              \<and> \<not> running (self st')"
    using b by (intro run_readRecords_fails rr) auto
qed

lemma demo_taps_ok: "taps_ok demo_world n"
  by (simp add: taps_ok_def demo_world_def)

lemma demo_compiler_simps:
  "hooks demo_compiler = compiler_hooks" "running demo_compiler = False"
  "recordsInputPath demo_compiler = None" "recordsOutputPath demo_compiler = None"
  "inputFileSystem demo_compiler = Some 2" "outputFileSystem demo_compiler = Some 1"
  "records demo_compiler = JRef 0" "outputPath demo_compiler = ''/out''"
  "options demo_compiler = \<lparr>output_opts = Some [(''futureEmitAssets'', JBool True)]\<rparr>"
  "assetEmittingWrittenFiles demo_compiler = []" "assetEmittingSourceCache demo_compiler = []"
  by (simp_all add: demo_compiler_def new_Compiler_def alloc_def)

lemma has_hooks_compiler_hooks: "hooks c = compiler_hooks \<Longrightarrow> has_hooks c"
  by (simp add: has_hooks_def compiler_hooks_def)

text \<open>
  Claim C5 on three compilers: no input path; the path of a file that is not there; the
  path of a file whose text does not parse.
\<close>

theorem readRecords_outcomes_witness:
  "(\<exists>a st'. readRecords demo_world 0 demo_state = (Ok (), st') \<and> records (self st') = JRef a
            \<and> deref (heap st') a = Some empty_object)
   \<and> (\<exists>st'. readRecords demo_world 0 demo_missing = (Ok (), st') \<and> records (self st') = JRef 0
            \<and> deref (heap st') 0 = Some empty_object)
   \<and> fst (readRecords demo_world 0 demo_malformed) =
       Fail (Error ''Cannot parse records: Unexpected end of JSON input'')
   \<and> (\<exists>st'. run 3 demo_world demo_malformed =
               Some (Callback (Some (Error ''Cannot parse records: Unexpected end of JSON input''))
                       None, st')
            \<and> count_ev (is_enter ''compile'') (since demo_malformed st') = 0
            \<and> \<not> running (self st'))"
proof -
  have a: "recordsInputPath (self demo_state) = None"
    by (simp add: demo_state_def demo_compiler_simps)
  have b: "recordsInputPath (self demo_missing) = Some ''/in/none.json'' \<and> ''/in/none.json'' \<noteq> []
           \<and> inputFileSystem (self demo_missing) \<noteq> None
           \<and> fs_stat demo_world ''/in/none.json'' 0 = Some (Error ''ENOENT'')
           \<and> records (self demo_missing) = JRef 0
           \<and> deref (heap demo_missing) 0 = Some empty_object"
    by (simp add: demo_missing_def demo_state_def demo_compiler_simps demo_world_def deref_def)
  have c: "recordsInputPath (self demo_malformed) = Some ''/in/records.json''
           \<and> ''/in/records.json'' \<noteq> []
           \<and> inputFileSystem (self demo_malformed) \<noteq> None
           \<and> fs_stat demo_world ''/in/records.json'' 0 = None
           \<and> fs_readFile demo_world ''/in/records.json'' 0 = Inr []
           \<and> parseJson demo_world (utf8_decode demo_world []) = Inl ''Unexpected end of JSON input''"
    by (simp add: demo_malformed_def demo_state_def demo_compiler_simps demo_world_def)
  have d: "\<not> running (self demo_malformed) \<and> has_hooks (self demo_malformed)
           \<and> taps_ok demo_world 0"
    by (simp add: demo_malformed_def demo_state_def demo_compiler_simps demo_taps_ok
          has_hooks_compiler_hooks)
  from readRecords_outcomes [where st = demo_state and w = demo_world and n = 0] a
  have 1: "\<exists>a st'. readRecords demo_world 0 demo_state = (Ok (), st') \<and> records (self st') = JRef a
            \<and> deref (heap st') a = Some empty_object" by blast
  from readRecords_outcomes [where st = demo_missing and w = demo_world and n = 0
      and p = "''/in/none.json''" and e = "Error ''ENOENT''" and ?a0.0 = 0] b
  have 2: "\<exists>st'. readRecords demo_world 0 demo_missing = (Ok (), st') \<and> records (self st') = JRef 0
            \<and> deref (heap st') 0 = Some empty_object" by blast
  from readRecords_outcomes [where st = demo_malformed and w = demo_world
      and p = "''/in/records.json''" and content = "[]"
      and msg = "''Unexpected end of JSON input''" and fuel = 3] c d
  have 3: "fst (readRecords demo_world 0 demo_malformed) =
             Fail (Error (''Cannot parse records: '' @ ''Unexpected end of JSON input''))
           \<and> (\<exists>st'. run 3 demo_world demo_malformed =
               Some (Callback (Some (Error (''Cannot parse records: ''
                                             @ ''Unexpected end of JSON input''))) None, st')
            \<and> count_ev (is_enter ''compile'') (since demo_malformed st') = 0
            \<and> \<not> running (self st'))" by blast
  from 1 2 3 show ?thesis by simp
qed


subsection \<open>What the work on one asset changes\<close>

lemma same_except_caches_refl [simp]: "same_except_caches c c"
  by (simp add: same_except_caches_def)

lemma same_except_cachesI:
  "c' = c\<lparr>assetEmittingSourceCache := x, assetEmittingWrittenFiles := y\<rparr>
   \<Longrightarrow> same_except_caches c c'"
  by (simp add: same_except_caches_def)

lemma same_except_cachesE:
  assumes "same_except_caches c c'"
  obtains x y where "c' = c\<lparr>assetEmittingSourceCache := x, assetEmittingWrittenFiles := y\<rparr>"
  using assms that unfolding same_except_caches_def by blast

lemma same_except_caches_trans:
  assumes "same_except_caches c c'" "same_except_caches c' c''"
  shows "same_except_caches c c''"
proof -
  obtain x y where 1: "c' = c\<lparr>assetEmittingSourceCache := x, assetEmittingWrittenFiles := y\<rparr>"
    using assms(1) by (rule same_except_cachesE)
  obtain x' y' where
    2: "c'' = c'\<lparr>assetEmittingSourceCache := x', assetEmittingWrittenFiles := y'\<rparr>"
    using assms(2) by (rule same_except_cachesE)
  show ?thesis by (rule same_except_cachesI [where x = x' and y = y']) (simp add: 1 2)
qed

lemma same_except_caches_fields:
  assumes "same_except_caches c c'"
  shows "hooks c' = hooks c" "options c' = options c" "outputFileSystem c' = outputFileSystem c"
    "outputPath c' = outputPath c" "running c' = running c" "records c' = records c"
    "recordsOutputPath c' = recordsOutputPath c" "recordsInputPath c' = recordsInputPath c"
    "inputFileSystem c' = inputFileSystem c" "name c' = name c"
    "fileTimestamps c' = fileTimestamps c" "contextTimestamps c' = contextTimestamps c"
proof -
  obtain x y where 1: "c' = c\<lparr>assetEmittingSourceCache := x, assetEmittingWrittenFiles := y\<rparr>"
    using assms by (rule same_except_cachesE)
  show "hooks c' = hooks c" "options c' = options c" "outputFileSystem c' = outputFileSystem c"
    "outputPath c' = outputPath c" "running c' = running c" "records c' = records c"
    "recordsOutputPath c' = recordsOutputPath c" "recordsInputPath c' = recordsInputPath c"
    "inputFileSystem c' = inputFileSystem c" "name c' = name c"
    "fileTimestamps c' = fileTimestamps c" "contextTimestamps c' = contextTimestamps c"
    by (simp_all add: 1)
qed

lemma sources_extend_refl [simp]: "sources_extend S S"
  by (simp add: sources_extend_def)

lemma sources_extend_trans:
  "sources_extend S S' \<Longrightarrow> sources_extend S' S'' \<Longrightarrow> sources_extend S S''"
  by (auto simp: sources_extend_def)

lemma emits_refl: "emits st st []"
  by (simp add: emits_def)

lemma emits_log: "emits st (log e st) [e]"
  by (simp add: emits_def)

lemma emits_trans: "emits st st1 evs \<Longrightarrow> emits st1 st2 evs' \<Longrightarrow> emits st st2 (evs @ evs')"
  by (auto simp: emits_def intro: same_except_caches_trans sources_extend_trans)

lemma touched_emits: "touched st st' evs \<Longrightarrow> emits st st' evs"
  by (simp add: touched_def emits_def)

lemma assets_but_refl [simp]: "assets_but f c c"
  by (simp add: assets_but_def)

lemma assets_but_trans:
  assumes "assets_but f c c'" "assets_but f c' c''"
  shows "assets_but f c c''"
proof -
  have 1: "c' = c\<lparr>assets := assets c', emittedAssets := emittedAssets c'\<rparr>"
    and 2: "c'' = c'\<lparr>assets := assets c'', emittedAssets := emittedAssets c''\<rparr>"
    using assms by (simp_all add: assets_but_def)
  have "c'' = c\<lparr>assets := assets c'', emittedAssets := emittedAssets c''\<rparr>"
    by (subst 2, subst 1) simp
  moreover have "\<forall>f'. f' \<noteq> f \<longrightarrow> map_of (assets c'') f' = map_of (assets c) f'"
    using assms by (simp add: assets_but_def)
  ultimately show ?thesis unfolding assets_but_def by blast
qed

lemma emits_set_cache_entry: "emits st (set_cache_entry src ce st) []"
  by (simp add: emits_def set_cache_entry_def same_except_caches_def)

lemma emits_new_source: "emits st (new_source b st) []"
  by (simp add: emits_def sources_extend_def nth_append)

lemma emits_set_source:
  assumes "body s = body (sources st ! src)"
  shows "emits st (set_source src s st) []"
  using assms
  by (cases "src < length (sources st)")
     (auto simp: emits_def sources_extend_def nth_list_update)

lemma emits_nil_trans: "emits st st1 [] \<Longrightarrow> emits st1 st2 evs \<Longrightarrow> emits st st2 evs"
  using emits_trans [of st st1 "[]" st2 evs] by simp

lemma writeOut_cases:
  assumes "writeOut w outPath f src targetFile (st, c) = (r, st', c')"
  obtains
    (threw) e where "r = Threw e" "c' = c"
      "st' = st \<or> st' = set_cache_entry src (cache_entry_of (self st) src) st"
      "futureEmitAssets (self st) = Inl e \<or> \<not> src < length (sources st)
       \<or> source_source (sources st ! src) = Inl e"
  | (skip_caching) "r = Finished None" "c' = c" "futureEmitAssets (self st) = Inr True"
      "src < length (sources st)"
      "st' = set_cache_entry src (cache_entry_of (self st) src) st"
      "cached (self st) src (fs_join w outPath targetFile)"
  | (skip_legacy) "r = Finished None" "c' = c" "futureEmitAssets (self st) = Inr False"
      "src < length (sources st)"
      "st' = set_source src ((sources st ! src)\<lparr>emitted := Some False\<rparr>) st"
      "existsAt (sources st ! src) = Some (fs_join w outPath targetFile)"
  | (write_caching) content where
      "r = Pending (PWrite f src (fs_join w outPath targetFile)
                      (generation (self st) (fs_join w outPath targetFile)) content)"
      "futureEmitAssets (self st) = Inr True" "src < length (sources st)"
      "\<not> cached (self st) src (fs_join w outPath targetFile)"
      "caching_content w (sources st ! src) = Inr content"
      "st' = log (WriteFile (fs_join w outPath targetFile) content)
              (set_cache_entry src
                 ((cache_entry_of (self st) src)\<lparr>sizeOnlySource := Some (length (sources st))\<rparr>)
                 (new_source (SizeOnlySource (length content))
                    (set_cache_entry src (cache_entry_of (self st) src) st)))"
      "c' = c\<lparr>assets := set_assoc f (length (sources st)) (assets c)\<rparr>"
  | (write_legacy) content where
      "r = Pending (PWriteLegacy f (fs_join w outPath targetFile) content)"
      "futureEmitAssets (self st) = Inr False" "src < length (sources st)"
      "existsAt (sources st ! src) \<noteq> Some (fs_join w outPath targetFile)"
      "legacy_content w (sources st ! src) = Inr content"
      "st' = log (WriteFile (fs_join w outPath targetFile) content)
               (set_source src
                  ((sources st ! src)\<lparr>existsAt := Some (fs_join w outPath targetFile),
                                        emitted := Some True\<rparr>) st)"
      "c' = c"
proof (cases "futureEmitAssets (self st)")
  case (Inl e)
  with assms show ?thesis by (intro threw [of e]) (auto simp: writeOut_def)
next
  case (Inr future)
  show ?thesis
  proof (cases "src < length (sources st)")
    case False
    with assms Inr show ?thesis
      by (intro threw [of "TypeError ''Cannot use undefined as a content object''"])
         (auto simp: writeOut_def)
  next
    case True
    show ?thesis
    proof (cases future)
      case caching: True
      show ?thesis
      proof (cases "cached (self st) src (fs_join w outPath targetFile)")
        case c: True
        with assms Inr True caching show ?thesis
          by (intro skip_caching)
             (auto simp: writeOut_def Let_def cached_def generation_def written_generation_def)
      next
        case nc: False
        show ?thesis
        proof (cases "caching_content w (sources st ! src)")
          case (Inl e)
          then have "source_source (sources st ! src) = Inl e"
            by (auto simp: caching_content_def split: source_body.splits option.splits sum.splits)
          with assms Inr True caching nc Inl show ?thesis
            by (intro threw [of e])
               (auto simp: writeOut_def Let_def cached_def generation_def written_generation_def)
        next
          case content: (Inr content)
          with assms Inr True caching nc show ?thesis
            by (intro write_caching [of content])
               (auto simp: writeOut_def Let_def cached_def generation_def written_generation_def)
        qed
      qed
    next
      case legacy: False
      show ?thesis
      proof (cases "existsAt (sources st ! src) = Some (fs_join w outPath targetFile)")
        case ex: True
        with assms Inr True legacy show ?thesis
          by (intro skip_legacy) (auto simp: writeOut_def Let_def)
      next
        case nex: False
        show ?thesis
        proof (cases "legacy_content w (sources st ! src)")
          case (Inl e)
          then have "source_source (sources st ! src) = Inl e"
            by (auto simp: legacy_content_def split: sum.splits)
          with assms Inr True legacy nex Inl show ?thesis
            by (intro threw [of e]) (auto simp: writeOut_def Let_def)
        next
          case content: (Inr content)
          with assms Inr True legacy nex show ?thesis
            by (intro write_legacy [of content]) (auto simp: writeOut_def Let_def)
        qed
      qed
    qed
  qed
qed


lemma writeOut_emits:
  assumes "writeOut w outPath f src targetFile (st, c) = (r, st', c')"
  shows "\<exists>evs. emits st st' evs \<and> list_all is_fs evs \<and> assets_but f c c'"
  using assms
proof (cases rule: writeOut_cases)
  case (threw e)
  from threw(3) have "emits st st' []"
    using emits_refl [of st] emits_set_cache_entry [of st src] by auto
  then have "emits st st' [] \<and> list_all is_fs [] \<and> assets_but f c c'"
    by (simp add: threw(2))
  then show ?thesis by (rule exI)
next
  case skip_caching
  have "emits st st' [] \<and> list_all is_fs [] \<and> assets_but f c c'"
    by (simp add: skip_caching(2,5) emits_set_cache_entry)
  then show ?thesis by (rule exI)
next
  case skip_legacy
  have "emits st st' [] \<and> list_all is_fs [] \<and> assets_but f c c'"
    by (simp add: skip_legacy(2,5) emits_set_source)
  then show ?thesis by (rule exI)
next
  case (write_caching content)
  let ?P = "fs_join w outPath targetFile"
  let ?a = "set_cache_entry src (cache_entry_of (self st) src) st"
  let ?b = "new_source (SizeOnlySource (length content)) ?a"
  let ?c = "set_cache_entry src
              ((cache_entry_of (self st) src)\<lparr>sizeOnlySource := Some (length (sources st))\<rparr>) ?b"
  have "emits st ?a []" by (rule emits_set_cache_entry)
  moreover have "emits ?a ?b []" by (rule emits_new_source)
  ultimately have "emits st ?b []" by (rule emits_nil_trans)
  moreover have "emits ?b ?c []" by (rule emits_set_cache_entry)
  ultimately have "emits st ?c []" by (rule emits_nil_trans)
  moreover have "emits ?c (log (WriteFile ?P content) ?c) [WriteFile ?P content]"
    by (rule emits_log)
  ultimately have "emits st (log (WriteFile ?P content) ?c) [WriteFile ?P content]"
    by (rule emits_nil_trans)
  then have 1: "emits st st' [WriteFile ?P content]" by (simp only: write_caching(6))
  have 2: "assets_but f c c'"
    unfolding write_caching(7) by (simp add: assets_but_def map_of_set_assoc)
  from 1 2 have "emits st st' [WriteFile ?P content] \<and> list_all is_fs [WriteFile ?P content]
      \<and> assets_but f c c'" by simp
  then show ?thesis by (rule exI)
next
  case (write_legacy content)
  let ?P = "fs_join w outPath targetFile"
  let ?a = "set_source src ((sources st ! src)\<lparr>existsAt := Some ?P, emitted := Some True\<rparr>) st"
  have "emits st ?a []" by (rule emits_set_source) simp
  moreover have "emits ?a (log (WriteFile ?P content) ?a) [WriteFile ?P content]"
    by (rule emits_log)
  ultimately have "emits st (log (WriteFile ?P content) ?a) [WriteFile ?P content]"
    by (rule emits_nil_trans)
  then have 1: "emits st st' [WriteFile ?P content]" by (simp only: write_legacy(6))
  from 1 have "emits st st' [WriteFile ?P content] \<and> list_all is_fs [WriteFile ?P content]
      \<and> assets_but f c c'" by (simp add: write_legacy(7))
  then show ?thesis by (rule exI)
qed

lemma start_task_emits:
  assumes "start_task w outPath f (st, c) = (r, st', c')"
  shows "\<exists>evs. emits st st' evs \<and> list_all is_fs evs \<and> assets_but f c c'"
proof (cases "map_of (assets c) f")
  case None
  with assms show ?thesis
    using emits_refl by (intro exI [of _ "[]"]) (auto simp: start_task_def)
next
  case (Some src)
  let ?tf = "takeWhile (\<lambda>c. c \<noteq> CHR ''?'') f"
  show ?thesis
  proof (cases "CHR ''/'' \<in> set ?tf \<or> backslash \<in> set ?tf")
    case True
    let ?d = "fs_join w outPath (path_dirname w ?tf)"
    from assms Some True have "st' = log (Mkdirp ?d) st" "c' = c"
      by (auto simp: start_task_def Let_def)
    then show ?thesis using emits_log by (intro exI [of _ "[Mkdirp ?d]"]) simp
  next
    case False
    with assms Some have "writeOut w outPath f src ?tf (st, c) = (r, st', c')"
      by (auto simp: start_task_def Let_def)
    then show ?thesis by (rule writeOut_emits)
  qed
qed


lemma complete_emits:
  assumes "complete w n outPath p (st, c) = (r, st', c')"
  shows "\<exists>evs. emits st st' evs \<and> list_all is_fs evs \<and> assets_but (pending_file p) c c'"
proof (cases p)
  case (PMkdirp f src tf d)
  show ?thesis
  proof (cases "fs_mkdirp w d n")
    case None
    with assms PMkdirp have "writeOut w outPath f src tf (st, c) = (r, st', c')"
      by (simp add: complete_def)
    then show ?thesis using PMkdirp by (simp add: writeOut_emits)
  next
    case (Some e)
    with assms PMkdirp show ?thesis
      using emits_refl by (intro exI [of _ "[]"]) (auto simp: complete_def)
  qed
next
  case (PWrite f src P g content)
  show ?thesis
  proof (cases "fs_writeFile w P content n")
    case None
    let ?g = "case g of None \<Rightarrow> 1 | Some k \<Rightarrow> k + 1"
    let ?a = "set_cache_entry src
                ((cache_entry_of (self st) src)\<lparr>writtenTo :=
                   set_assoc P ?g (writtenTo (cache_entry_of (self st) src))\<rparr>) st"
    let ?b = "?a\<lparr>self := (self ?a)\<lparr>assetEmittingWrittenFiles :=
                  set_assoc P ?g (assetEmittingWrittenFiles (self ?a))\<rparr>\<rparr>"
    from assms PWrite None have st': "st' = ?b"
      and c': "c' = c\<lparr>emittedAssets := (if f \<in> set (emittedAssets c) then emittedAssets c
                                           else emittedAssets c @ [f])\<rparr>"
      by (auto simp: complete_def Let_def)
    have "emits ?a ?b []" by (simp add: emits_def same_except_caches_def)
    then have "emits st ?b []" by (rule emits_nil_trans [OF emits_set_cache_entry])
    moreover have "assets_but f c c'" by (simp add: c' assets_but_def)
    ultimately show ?thesis using st' PWrite by (intro exI [of _ "[]"]) simp
  next
    case (Some e)
    with assms PWrite show ?thesis
      using emits_refl by (intro exI [of _ "[]"]) (auto simp: complete_def)
  qed
next
  case (PWriteLegacy f P content)
  with assms show ?thesis
    using emits_refl by (intro exI [of _ "[]"]) (auto simp: complete_def)
qed


subsection \<open>Invariants of the limiter\<close>


lemma fill_invariant:
  assumes "P (q, s)"
      and "\<And>f fs s. P (f # fs, s) \<Longrightarrow> \<not> blocked lim s \<Longrightarrow>
             P (fs, started f (start_task w outPath f (log (TaskStart f) (st_of s), comp_of s)) s)"
  shows "P (fill w outPath lim q s)"
  using assms(1)
proof (induction q arbitrary: s)
  case Nil
  then show ?case by simp
next
  case (Cons f fs)
  show ?case
  proof (cases "blocked lim s")
    case True
    then show ?thesis using Cons.prems by simp
  next
    case False
    then show ?thesis using Cons.IH [OF assms(2) [OF Cons.prems False]] by simp
  qed
qed


lemma drain_stop:
  assumes "inflight (snd qs) = [] \<or> thrown (snd qs) \<noteq> None"
  shows "drain w n outPath lim k qs = qs"
  using drain.simps [of w n outPath lim k qs] assms by (simp only: if_True)

lemma drain_go:
  assumes "inflight (snd qs) \<noteq> []" "thrown (snd qs) = None"
  shows "drain w n outPath lim k qs
           = drain w n outPath lim (Suc k) (drain_step w n outPath lim k qs)"
proof -
  have "\<not> (inflight (snd qs) = [] \<or> thrown (snd qs) \<noteq> None)" using assms by simp
  then show ?thesis using drain.simps [of w n outPath lim k qs] by (simp only: if_False)
qed

lemma drain_step_invariant_aux:
  "(\<forall>k qs. P qs \<longrightarrow> inflight (snd qs) \<noteq> [] \<longrightarrow> thrown (snd qs) = None \<longrightarrow>
        P (drain_step w n outPath lim k qs)) \<Longrightarrow> P qs \<Longrightarrow> P (drain w n outPath lim k qs)"
proof (induction w n outPath lim k qs rule: drain.induct)
  case (1 w n outPath lim k qs)
  show ?case
  proof (cases "inflight (snd qs) = [] \<or> thrown (snd qs) \<noteq> None")
    case True
    then have "drain w n outPath lim k qs = qs" by (rule drain_stop)
    then show ?thesis using "1.prems"(2) by simp
  next
    case False
    then have ne: "inflight (snd qs) \<noteq> []" and nt: "thrown (snd qs) = None" by simp_all
    have "P (drain_step w n outPath lim k qs)"
      using "1.prems"(1) [rule_format, OF "1.prems"(2) ne nt] .
    then have "P (drain w n outPath lim (Suc k) (drain_step w n outPath lim k qs))"
      using "1.IH" [OF False "1.prems"(1)] by simp
    then show ?thesis by (simp only: drain_go [OF ne nt])
  qed
qed

lemma drain_step_invariant:
  assumes "P qs"
      and "\<And>k qs. P qs \<Longrightarrow> inflight (snd qs) \<noteq> [] \<Longrightarrow> thrown (snd qs) = None \<Longrightarrow>
             P (drain_step w n outPath lim k qs)"
  shows "P (drain w n outPath lim k qs)"
proof (rule drain_step_invariant_aux [where P = P])
  show "\<forall>k qs. P qs \<longrightarrow> inflight (snd qs) \<noteq> [] \<longrightarrow> thrown (snd qs) = None \<longrightarrow>
        P (drain_step w n outPath lim k qs)" using assms(2) by blast
  show "P qs" by (rule assms(1))
qed

lemma drain_invariant:
  assumes init: "P qs"
      and start: "\<And>f fs s. P (f # fs, s) \<Longrightarrow> \<not> blocked lim s \<Longrightarrow>
             P (fs, started f (start_task w outPath f (log (TaskStart f) (st_of s), comp_of s)) s)"
      and answer: "\<And>q s i. P (q, s) \<Longrightarrow> i < length (inflight s) \<Longrightarrow> thrown s = None \<Longrightarrow>
             P (q, answered i (pending_file (inflight s ! i))
                     (complete w n outPath (inflight s ! i) (st_of s, comp_of s)) s)"
  shows "P (drain w n outPath lim k qs)"
proof (rule drain_step_invariant [where P = P, OF init])
  fix k qs
  assume P: "P qs" and ne: "inflight (snd qs) \<noteq> []" and nt: "thrown (snd qs) = None"
  obtain q s where qs: "qs = (q, s)" by (cases qs)
  define i where "i = pick w k mod length (inflight s)"
  have il: "i < length (inflight s)" using ne qs by (simp add: i_def)
  let ?rs = "complete w n outPath (inflight s ! i) (st_of s, comp_of s)"
  let ?s = "answered i (pending_file (inflight s ! i)) ?rs s"
  have a: "P (q, ?s)" using answer P il nt qs by simp
  have "P (fill w outPath lim q ?s)" by (rule fill_invariant [OF a start])
  with a show "P (drain_step w n outPath lim k qs)"
    by (simp add: drain_step_def qs Let_def i_def [symmetric] split: step.splits)
qed

subsection \<open>Counting the iterator calls in flight\<close>

lemma flight_append: "flight c (xs @ ys) = flight (flight c xs) ys"
  by (induction xs arbitrary: c) simp_all

lemma peak_ge: "c \<le> peak c xs"
  by (cases xs) simp_all

lemma peak_append: "peak c (xs @ ys) = max (peak c xs) (peak (flight c xs) ys)"
proof (induction xs arbitrary: c)
  case Nil
  show ?case using peak_ge [of c ys] by simp
next
  case (Cons e es)
  show ?case using peak_ge [of "bump c e" es] by (simp add: Cons.IH max.assoc)
qed

lemma flight_quiet:
  assumes "\<And>e c. e \<in> set ys \<Longrightarrow> bump c e = c"
  shows "flight c ys = c" "peak c ys = c"
  using assms by (induction ys arbitrary: c) simp_all

lemma bump_fs: "is_fs e \<Longrightarrow> bump c e = c"
  by (cases e) simp_all

lemma bump_tap: "is_tap e \<Longrightarrow> bump c e = c"
  by (cases e) simp_all

lemma flight_fs:
  assumes "list_all is_fs ys"
  shows "flight c ys = c" "peak c ys = c"
  using assms by (simp_all add: flight_quiet bump_fs list_all_iff)

lemma flight_tap:
  assumes "list_all is_tap ys"
  shows "flight c ys = c" "peak c ys = c"
  using assms by (simp_all add: flight_quiet bump_tap list_all_iff)

lemma first_failure_append:
  "first_failure (xs @ ys)
     = (case first_failure xs of Some e \<Rightarrow> Some e | None \<Rightarrow> first_failure ys)"
  by (induction xs rule: first_failure.induct) simp_all

lemma first_failure_fs: "list_all is_fs ys \<Longrightarrow> first_failure ys = None"
  by (induction ys rule: first_failure.induct) simp_all

lemma first_failure_tap: "list_all is_tap ys \<Longrightarrow> first_failure ys = None"
  by (induction ys rule: first_failure.induct) simp_all

lemma first_failure_None:
  "first_failure evs = None \<Longrightarrow> TaskDone f eo \<in> set evs \<Longrightarrow> eo = None"
  by (induction evs rule: first_failure.induct) auto

lemma is_fs_io: "is_fs e \<Longrightarrow> is_io e"
  by (cases e) simp_all

lemma list_all_fs_io: "list_all is_fs evs \<Longrightarrow> list_all is_io evs"
  by (simp add: list_all_iff is_fs_io)

lemma emits_since: "emits st st' evs \<Longrightarrow> since st st' = evs"
  by (simp add: emits_def since_def)

lemma set_remove_nth:
  assumes "i < length xs"
  shows "set xs = insert (xs ! i) (set (remove_nth i xs))"
    and "length (remove_nth i xs) = length xs - 1"
proof -
  have "xs = take i xs @ xs ! i # drop (Suc i) xs" using assms by (rule id_take_nth_drop)
  then have "set xs = set (take i xs @ xs ! i # drop (Suc i) xs)" by simp
  then show "set xs = insert (xs ! i) (set (remove_nth i xs))"
    by (simp add: remove_nth_def)
  show "length (remove_nth i xs) = length xs - 1"
    using assms by (simp add: remove_nth_def)
qed

lemma writeOut_pending_file:
  assumes "writeOut w outPath f src targetFile (st, c) = (Pending p, st', c')"
  shows "pending_file p = f"
  using assms by (cases rule: writeOut_cases) simp_all

lemma start_task_pending_file:
  assumes "start_task w outPath f (st, c) = (Pending p, st', c')"
  shows "pending_file p = f"
proof (cases "map_of (assets c) f")
  case None
  with assms show ?thesis by (simp add: start_task_def)
next
  case (Some src)
  let ?tf = "takeWhile (\<lambda>c. c \<noteq> CHR ''?'') f"
  show ?thesis
  proof (cases "CHR ''/'' \<in> set ?tf \<or> backslash \<in> set ?tf")
    case True
    with assms Some show ?thesis by (auto simp: start_task_def Let_def)
  next
    case False
    with assms Some have "writeOut w outPath f src ?tf (st, c) = (Pending p, st', c')"
      by (auto simp: start_task_def Let_def)
    then show ?thesis by (rule writeOut_pending_file)
  qed
qed

lemma complete_pending_file:
  assumes "complete w n outPath p (st, c) = (Pending p', st', c')"
  shows "pending_file p' = pending_file p"
proof (cases p)
  case (PMkdirp f src tf d)
  with assms have "writeOut w outPath f src tf (st, c) = (Pending p', st', c')"
    by (cases "fs_mkdirp w d n") (simp_all add: complete_def)
  then show ?thesis using PMkdirp by (simp add: writeOut_pending_file)
next
  case (PWrite f src P g content)
  with assms show ?thesis
    by (cases "fs_writeFile w P content n") (simp_all add: complete_def Let_def)
next
  case (PWriteLegacy f P content)
  with assms show ?thesis by (simp add: complete_def)
qed

end
